theory Spec2Isabelle
  imports Complex_Main "HOL-Library.AList" "HOL-Library.Char_ord" "HOL-Library.Sublist"
begin

section \<open>Errors\<close>

text \<open>
  The interpreter signals a failure by throwing an object of one of its error classes
  (errors.ts).  A function of the model that can throw returns \<open>Error + 'a\<close>, with
  \<open>Inl\<close> for the throw.  \<open>TypeError\<close> is the error the JavaScript runtime itself throws
  when a property of \<open>undefined\<close> is read.
\<close>

datatype Error =
    LexerError
  | IncompleteError
  | ParserError
  | ElaborationError
  | EvaluationError
  | FeatureDisabledError
  | InternalInterpreterError
  | TypeError

section \<open>Tokens, types and the abstract syntax\<close>

text \<open>
  The token classes, with the arguments the lexer passes to their constructors: the
  token's text and, for constants, its value.  \<open>RealConstantToken\<close> keeps the string that
  the lexer hands to \<open>parseFloat\<close>; the floating point number itself is not modelled.
  The value of a string or character constant is the list of its character codes.
\<close>

datatype Token =
    KeywordToken string
  | IntegerConstantToken string int
  | NumericToken string int
  | RealConstantToken string string
  | WordConstantToken string int
  | CharacterConstantToken string "nat list"
  | StringConstantToken string "nat list"
  | IdentifierToken string
  | AlphanumericIdentifierToken string
  | TypeVariableToken string
  | EqualityTypeVariableToken string
  | StarToken
  | EqualsToken
  | LongIdentifierToken string "Token list" Token

fun getText :: "Token \<Rightarrow> string" where
  "getText (KeywordToken t) = t"
| "getText (IntegerConstantToken t v) = t"
| "getText (NumericToken t v) = t"
| "getText (RealConstantToken t v) = t"
| "getText (WordConstantToken t v) = t"
| "getText (CharacterConstantToken t v) = t"
| "getText (StringConstantToken t v) = t"
| "getText (IdentifierToken t) = t"
| "getText (AlphanumericIdentifierToken t) = t"
| "getText (TypeVariableToken t) = t"
| "getText (EqualityTypeVariableToken t) = t"
| "getText StarToken = ''*''"
| "getText EqualsToken = ''=''"
| "getText (LongIdentifierToken t qs f) = t"

text \<open>
  declarations.ts builds its tokens with a second argument, the position
  (\<open>new IdentifierToken('__arg' + i, -1)\<close>): a token of the syntax tree is the pair of
  the token and that position.  Positions are integers, \<open>-1\<close> for a synthetic node.
\<close>

type_synonym Position = int
type_synonym PToken = "Token \<times> Position"

definition ptext :: "PToken \<Rightarrow> string" where
  "ptext t = getText (fst t)"

text \<open>
  Modelled from the spec: the static types (types.ts is not among the sources), with the
  variants of the spec's data model.
\<close>

datatype Type =
    TypeVariable string bool
  | CustomType string "Type list"
  | RecordType "(string \<times> Type) list" bool
  | FunctionType Type Type
  | TupleType "Type list"

text \<open>
  Modelled from the spec and from the constructor calls of declarations.ts and of the
  parser tests: the nodes for expressions and patterns (expressions.ts is not among the
  sources).  Patterns and expressions share one type, as in the source.  An expression may hold a declaration
  (\<open>let\<close>) and a declaration holds expressions, so the nodes for expressions, matches,
  bindings and declarations are one family of types.

  The declarations and bindings are those of declarations.ts.  Every declaration ends
  with its \<open>id\<close>.  The name of a \<open>FunctionValueBinding\<close> is a \<open>ValueIdentifier\<close>, given
  by its position and token, or \<open>undefined\<close>.  The constructors of
  \<open>DatatypeDeclaration\<close> and \<open>AbstypeDeclaration\<close> throw a \<open>FeatureDisabledError\<close> when
  a \<open>withtype\<close> part is given, so that a declaration that exists has none.
\<close>

datatype TypeBinding =
  TypeBinding Position "Type list" PToken Type

datatype DatatypeBinding =
  DatatypeBinding Position "Type list" PToken "(PToken \<times> Type option) list"

datatype ExceptionBinding =
    DirectExceptionBinding Position PToken "Type option"
  | ExceptionAlias Position PToken PToken

datatype PatternExpression =
    ValueIdentifier Position PToken
  | Wildcard Position
  | Constant Position PToken
  | RecordSelector Position PToken
  | LayeredPattern Position PToken "Type option" PatternExpression
  | Tuple Position "PatternExpression list"
  | List Position "PatternExpression list"
  | Sequence Position "PatternExpression list"
  | Record Position bool "(string \<times> PatternExpression) list"
  | TypedExpression Position PatternExpression Type
  | FunctionApplication Position PatternExpression PatternExpression
  | HandleException Position PatternExpression Match
  | RaiseException Position PatternExpression
  | Lambda Position Match
  | CaseAnalysis Position PatternExpression Match
  | Conditional Position PatternExpression PatternExpression PatternExpression
  | Conjunction Position PatternExpression PatternExpression
  | Disjunction Position PatternExpression PatternExpression
  | While Position PatternExpression PatternExpression
  | LocalDeclarationExpression Position Declaration PatternExpression
and Match = Match Position "(PatternExpression \<times> PatternExpression) list"
and ValueBinding =
  ValueBinding Position bool PatternExpression PatternExpression
and FunctionValueBinding =
  FunctionValueBinding Position
    "(PatternExpression list \<times> Type option \<times> PatternExpression) list"
    "(Position \<times> PToken) option"
and Declaration =
    ValueDeclaration Position "Type list" "ValueBinding list" int
  | TypeDeclaration Position "TypeBinding list" int
  | DatatypeDeclaration Position "DatatypeBinding list" "TypeBinding list option" int
  | DatatypeReplication Position PToken PToken int
  | AbstypeDeclaration Position "DatatypeBinding list" "TypeBinding list option" Declaration int
  | ExceptionDeclaration Position "ExceptionBinding list" int
  | LocalDeclaration Position Declaration Declaration int
  | OpenDeclaration Position "PToken list" int
  | EmptyDeclaration int
  | SequentialDeclaration Position "Declaration list" int
  | FunctionDeclaration Position "Type list" "FunctionValueBinding list" int
  | InfixDeclaration Position "PToken list" int int
  | InfixRDeclaration Position "PToken list" int int
  | NonfixDeclaration Position "PToken list" int

fun declarationId :: "Declaration \<Rightarrow> int" where
  "declarationId (ValueDeclaration p tvs bs i) = i"
| "declarationId (TypeDeclaration p bs i) = i"
| "declarationId (DatatypeDeclaration p bs tb i) = i"
| "declarationId (DatatypeReplication p n old i) = i"
| "declarationId (AbstypeDeclaration p bs tb d i) = i"
| "declarationId (ExceptionDeclaration p bs i) = i"
| "declarationId (LocalDeclaration p d b i) = i"
| "declarationId (OpenDeclaration p ns i) = i"
| "declarationId (EmptyDeclaration i) = i"
| "declarationId (SequentialDeclaration p ds i) = i"
| "declarationId (FunctionDeclaration p tvs bs i) = i"
| "declarationId (InfixDeclaration p ops prec i) = i"
| "declarationId (InfixRDeclaration p ops prec i) = i"
| "declarationId (NonfixDeclaration p ops i) = i"

section \<open>Values and states\<close>

text \<open>
  The classes of values.ts.  JavaScript numbers that hold SML integers are \<open>int\<close>; a
  \<open>Real\<close> holds a finite number (NaN and the infinities are not represented).  A
  \<open>RecordValue\<close> holds its entries in insertion order.  A \<open>PredefinedFunction\<close> is
  represented by its name; its host callback is not part of the model.

  Modelled from the spec: the state (state.ts is not among the sources).  A state is a
  scope frame with a parent pointer; it carries the dynamic values and types, the fixity
  table, the identifier ids and the rebind status of identifiers.  The static maps are
  left out: nothing modelled below reads them.  States are objects that are shared and
  changed in place: they live in a store, and a reference to a state is its place in the
  store.  A \<open>FunctionValue\<close> holds the reference to its captured state.
\<close>

datatype RebindStatus = Never | Allowed

type_synonym StateRef = nat

datatype Value =
    BoolValue bool
  | CharValue string
  | StringValue string
  | Word int
  | Integer int
  | Real real
  | RecordValue "(string \<times> Value) list"
  | FunctionValue StateRef "(string \<times> Value) list" Match
  | ConstructedValue string "Value option" int
  | ExceptionValue string "Value option" int
  | PredefinedFunction string
  | ValueConstructor string int int
  | ExceptionConstructor string int int

record State =
  stateId :: int
  parent :: "StateRef option"
  dynamicValues :: "(string \<times> Value) list"
  dynamicTypes :: "(string \<times> string list) list"
  infixEnvironment :: "(string \<times> (int \<times> bool \<times> bool)) list"
  valueIdentifierId :: "(string \<times> int) list"
  rebindEnvironment :: "(string \<times> RebindStatus) list"

type_synonym Store = "State list"

subsection \<open>Structural equality of values\<close>

text \<open>
  \<open>equals\<close> follows the \<open>equals\<close> method of each class.  The primitive classes
  compare their \<open>value\<close> fields with \<open>===\<close>, which is false across JavaScript types; a
  char is a string in JavaScript, so \<open>CharValue\<close> and \<open>StringValue\<close> compare equal when
  they hold the same string.  \<open>RecordValue.equals\<close> reads \<open>this.entries[i]\<close>, a property
  of the Map object that is \<open>undefined\<close>: it throws a TypeError at the first key of
  \<open>this\<close> that the other record has too, and otherwise returns false, because
  \<open>forEach\<close> returns \<open>undefined\<close>.  \<open>FunctionValue\<close> inherits \<open>Value.equals\<close>, which
  throws.
\<close>

fun equals :: "Value \<Rightarrow> Value \<Rightarrow> Error + bool" where
  "equals (BoolValue a) other =
     (case other of BoolValue b \<Rightarrow> Inr (a = b) | _ \<Rightarrow> Inr False)"
| "equals (CharValue a) other =
     (case other of CharValue b \<Rightarrow> Inr (a = b) | StringValue b \<Rightarrow> Inr (a = b)
      | _ \<Rightarrow> Inr False)"
| "equals (StringValue a) other =
     (case other of CharValue b \<Rightarrow> Inr (a = b) | StringValue b \<Rightarrow> Inr (a = b)
      | _ \<Rightarrow> Inr False)"
| "equals (Word a) other =
     (case other of Word b \<Rightarrow> Inr (a = b) | _ \<Rightarrow> Inr False)"
| "equals (Integer a) other =
     (case other of Integer b \<Rightarrow> Inr (a = b) | _ \<Rightarrow> Inr False)"
| "equals (Real a) other =
     (case other of Real b \<Rightarrow> Inr (a = b) | _ \<Rightarrow> Inr False)"
| "equals (RecordValue es) other =
     (case other of
        RecordValue os \<Rightarrow>
          (if list_ex (\<lambda>k. k \<in> set (map fst os)) (map fst es) then Inl TypeError
           else Inr False)
      | _ \<Rightarrow> Inr False)"
| "equals (FunctionValue s r b) other = Inl InternalInterpreterError"
| "equals (ConstructedValue n arg i) other =
     (case other of
        ConstructedValue n' arg' i' \<Rightarrow>
          (if n \<noteq> n' \<or> i \<noteq> i' then Inr False
           else (case arg of
                   Some a \<Rightarrow> (case arg' of None \<Rightarrow> Inr True | Some a' \<Rightarrow> equals a a')
                 | None \<Rightarrow> Inr (arg' = None)))
      | _ \<Rightarrow> Inr False)"
| "equals (ExceptionValue n arg i) other =
     (case other of
        ExceptionValue n' arg' i' \<Rightarrow>
          (if n \<noteq> n' \<or> i \<noteq> i' then Inr False
           else (case arg of
                   Some a \<Rightarrow> (case arg' of None \<Rightarrow> Inr True | Some a' \<Rightarrow> equals a a')
                 | None \<Rightarrow> Inr (arg' = None)))
      | _ \<Rightarrow> Inr False)"
| "equals (PredefinedFunction n) other =
     (case other of PredefinedFunction n' \<Rightarrow> Inr (n = n') | _ \<Rightarrow> Inr False)"
| "equals (ValueConstructor n k i) other =
     (case other of ValueConstructor n' k' i' \<Rightarrow> Inr (n = n' \<and> i = i')
      | _ \<Rightarrow> Inr False)"
| "equals (ExceptionConstructor n k i) other =
     (case other of ExceptionConstructor n' k' i' \<Rightarrow> Inr (n = n' \<and> i = i')
      | _ \<Rightarrow> Inr False)"

subsection \<open>Integer arithmetic\<close>

text \<open>
  The arithmetic methods of class \<open>Integer\<close> (values.ts), on the numbers they hold.
  None of them checks a range.  \<open>divide\<close> is \<open>Math.floor(a / b)\<close> and \<open>modulo\<close> is
  JavaScript's \<open>a % b\<close>, the remainder with the sign of the dividend; for \<open>b = 0\<close> both
  produce a number that is no integer (an infinity or NaN), which is \<open>None\<close> here.
  Sums and products are exact in the model; a JavaScript number rounds a product
  beyond \<open>2^53\<close>, which does not move it across a bound of 31 bits.
\<close>

definition Integer_negate :: "int \<Rightarrow> int" where
  "Integer_negate a = - a"

definition Integer_add :: "int \<Rightarrow> int \<Rightarrow> int" where
  "Integer_add a b = a + b"

definition Integer_multiply :: "int \<Rightarrow> int \<Rightarrow> int" where
  "Integer_multiply a b = a * b"

definition Integer_divide :: "int \<Rightarrow> int \<Rightarrow> int option" where
  "Integer_divide a b = (if b = 0 then None else Some (a div b))"

definition Integer_modulo :: "int \<Rightarrow> int \<Rightarrow> int option" where
  "Integer_modulo a b = (if b = 0 then None else Some (sgn a * (\<bar>a\<bar> mod \<bar>b\<bar>)))"

text \<open>
  Modelled from the spec: the operators \<open>+ - * div mod\<close> on \<open>Integer\<close>.  They are
  callbacks of the initial state (initialState.ts), which is not among the sources, and
  the bounds \<open>MININT\<close> and \<open>MAXINT\<close> are not defined in the values.ts at hand: the
  bounds are parameters.  The spec: the operators "detect overflow against
  [MININT, MAXINT] and raise Overflow; div and mod by zero raise Div".  An operator
  returns the pair of a value and the flag that says whether the value is a raised
  exception.  Class \<open>Integer\<close> has no method for subtraction: \<open>a - b\<close> adds the negation.
\<close>

definition raiseException :: "string \<Rightarrow> Value \<times> bool" where
  "raiseException name = (ExceptionValue name None 0, True)"

definition detectOverflow :: "int \<Rightarrow> int \<Rightarrow> int \<Rightarrow> Value \<times> bool" where
  "detectOverflow MININT MAXINT r =
     (if r < MININT \<or> MAXINT < r then raiseException ''Overflow'' else (Integer r, False))"

definition op_plus :: "int \<Rightarrow> int \<Rightarrow> int \<Rightarrow> int \<Rightarrow> Value \<times> bool" where
  "op_plus MININT MAXINT a b = detectOverflow MININT MAXINT (Integer_add a b)"

definition op_minus :: "int \<Rightarrow> int \<Rightarrow> int \<Rightarrow> int \<Rightarrow> Value \<times> bool" where
  "op_minus MININT MAXINT a b =
     detectOverflow MININT MAXINT (Integer_add a (Integer_negate b))"

definition op_times :: "int \<Rightarrow> int \<Rightarrow> int \<Rightarrow> int \<Rightarrow> Value \<times> bool" where
  "op_times MININT MAXINT a b = detectOverflow MININT MAXINT (Integer_multiply a b)"

definition op_div :: "int \<Rightarrow> int \<Rightarrow> int \<Rightarrow> int \<Rightarrow> Value \<times> bool" where
  "op_div MININT MAXINT a b =
     (case Integer_divide a b of
        None \<Rightarrow> raiseException ''Div''
      | Some q \<Rightarrow> detectOverflow MININT MAXINT q)"

definition op_mod :: "int \<Rightarrow> int \<Rightarrow> int \<Rightarrow> int \<Rightarrow> Value \<times> bool" where
  "op_mod MININT MAXINT a b =
     (case Integer_modulo a b of
        None \<Rightarrow> raiseException ''Div''
      | Some r \<Rightarrow> detectOverflow MININT MAXINT r)"

definition outside :: "int \<Rightarrow> int \<Rightarrow> int \<Rightarrow> bool" where
  "outside MININT MAXINT r = (r < MININT \<or> MAXINT < r)"

subsection \<open>The operations of a state\<close>

text \<open>
  Modelled from the spec: the methods of \<open>State\<close> that declarations.ts and values.ts
  call (state.ts is not among the sources).  "A scope frame with parent pointer."
  "Lookups walk up the parent chain; writes always occur in the innermost frame."
  The states live in a store, a state is referred to by its place there, and a method
  that changes a state changes the store at that place, so that every holder of the
  reference sees the change.  \<open>getNestedState\<close> allocates an empty state with the given
  id whose parent is the state it is called on; the role of its first argument is not
  known from the sources, and it is ignored.  A state is allocated after its parent, and
  a lookup goes on to a parent only if that is so.  An identifier without an id has the
  id 0, and one without a rebind status may be rebound.
\<close>

definition emptyState :: "int \<Rightarrow> StateRef option \<Rightarrow> State" where
  "emptyState i p =
     \<lparr>stateId = i, parent = p, dynamicValues = [], dynamicTypes = [], infixEnvironment = [],
      valueIdentifierId = [], rebindEnvironment = []\<rparr>"

definition getNestedState :: "bool \<Rightarrow> int \<Rightarrow> StateRef \<Rightarrow> Store \<Rightarrow> StateRef \<times> Store" where
  "getNestedState flag newId state store = (length store, store @ [emptyState newId (Some state)])"

definition setDynamicValue :: "string \<Rightarrow> Value \<Rightarrow> StateRef \<Rightarrow> Store \<Rightarrow> Store" where
  "setDynamicValue name v state store =
     store[state := (store ! state)\<lparr>dynamicValues := (name, v) # dynamicValues (store ! state)\<rparr>]"

definition setDynamicType :: "string \<Rightarrow> string list \<Rightarrow> StateRef \<Rightarrow> Store \<Rightarrow> Store" where
  "setDynamicType name cs state store =
     store[state := (store ! state)\<lparr>dynamicTypes := (name, cs) # dynamicTypes (store ! state)\<rparr>]"

definition setInfixStatus :: "PToken \<Rightarrow> int \<Rightarrow> bool \<Rightarrow> bool \<Rightarrow> StateRef \<Rightarrow> Store \<Rightarrow> Store" where
  "setInfixStatus t precedence rightAssociative isInfix state store =
     store[state := (store ! state)\<lparr>infixEnvironment :=
       (ptext t, (precedence, rightAssociative, isInfix)) # infixEnvironment (store ! state)\<rparr>]"

function lookupChain ::
  "(State \<Rightarrow> (string \<times> 'a) list) \<Rightarrow> string \<Rightarrow> StateRef \<Rightarrow> Store \<Rightarrow> 'a option" where
  "lookupChain env name state store =
     (if state < length store then
        (case map_of (env (store ! state)) name of
           Some x \<Rightarrow> Some x
         | None \<Rightarrow>
             (case parent (store ! state) of
                None \<Rightarrow> None
              | Some q \<Rightarrow> if q < state then lookupChain env name q store else None))
      else None)"
  by pat_completeness auto
termination
  by (relation "measure (\<lambda>(env, name, state, store). state)") auto

declare lookupChain.simps [simp del]

definition getDynamicValue :: "string \<Rightarrow> StateRef \<Rightarrow> Store \<Rightarrow> Value option" where
  "getDynamicValue name state store = lookupChain dynamicValues name state store"

definition getDynamicType :: "string \<Rightarrow> StateRef \<Rightarrow> Store \<Rightarrow> string list option" where
  "getDynamicType name state store = lookupChain dynamicTypes name state store"


definition getValueIdentifierId :: "string \<Rightarrow> StateRef \<Rightarrow> Store \<Rightarrow> int" where
  "getValueIdentifierId name state store =
     (case lookupChain valueIdentifierId name state store of Some n \<Rightarrow> n | None \<Rightarrow> 0)"

definition incrementValueIdentifierId :: "string \<Rightarrow> StateRef \<Rightarrow> Store \<Rightarrow> Store" where
  "incrementValueIdentifierId name state store =
     store[state := (store ! state)\<lparr>valueIdentifierId :=
       (name, getValueIdentifierId name state store + 1) # valueIdentifierId (store ! state)\<rparr>]"

definition getRebindStatus :: "string \<Rightarrow> StateRef \<Rightarrow> Store \<Rightarrow> RebindStatus" where
  "getRebindStatus name state store =
     (case lookupChain rebindEnvironment name state store of Some r \<Rightarrow> r | None \<Rightarrow> Allowed)"

text \<open>The assignment \<open>res[0].parent = state\<close> of \<open>LocalDeclaration.evaluate\<close>.\<close>

definition setParent :: "StateRef \<Rightarrow> StateRef \<Rightarrow> Store \<Rightarrow> Store" where
  "setParent q state store = store[state := (store ! state)\<lparr>parent := Some q\<rparr>]"

section \<open>Simplification of declarations\<close>

text \<open>
  \<open>simplify\<close> of declarations.ts.  The \<open>simplify\<close> methods of expressions, patterns
  and types are in files that are not among the sources: they are the parameters
  \<open>esimp\<close> (for expressions and patterns alike, which share their classes) and \<open>tsimp\<close>,
  and they may throw.  \<open>mapE\<close> is a loop that builds a list and stops at the first
  error.
\<close>

fun mapE :: "('a \<Rightarrow> Error + 'b) \<Rightarrow> 'a list \<Rightarrow> Error + 'b list" where
  "mapE f [] = Inr []"
| "mapE f (x # xs) =
     (case f x of
        Inl e \<Rightarrow> Inl e
      | Inr y \<Rightarrow> (case mapE f xs of Inl e \<Rightarrow> Inl e | Inr ys \<Rightarrow> Inr (y # ys)))"

lemma mapE_cong [fundef_cong]:
  "xs = ys \<Longrightarrow> (\<And>x. x \<in> set ys \<Longrightarrow> f x = g x) \<Longrightarrow> mapE f xs = mapE g ys"
  by (induction ys arbitrary: xs) (auto split: sum.splits)

text \<open>The decimal digits of a number, as \<open>'__arg' + i\<close> appends them.\<close>

fun natToString :: "nat \<Rightarrow> string" where
  "natToString n =
     (if n < 10 then [''0123456789'' ! n]
      else natToString (n div 10) @ [''0123456789'' ! (n mod 10)])"

declare natToString.simps [simp del]

definition argIdentifier :: "nat \<Rightarrow> PatternExpression" where
  "argIdentifier i = ValueIdentifier (- 1) (IdentifierToken (''__arg'' @ natToString i), - 1)"

definition simplifyValueBinding ::
  "(PatternExpression \<Rightarrow> Error + PatternExpression) \<Rightarrow> ValueBinding \<Rightarrow> Error + ValueBinding" where
  "simplifyValueBinding esimp b =
     (case b of ValueBinding position isRecursive pattern expression \<Rightarrow>
        (case esimp pattern of
           Inl e \<Rightarrow> Inl e
         | Inr pattern' \<Rightarrow>
             (case esimp expression of
                Inl e \<Rightarrow> Inl e
              | Inr expression' \<Rightarrow> Inr (ValueBinding position isRecursive pattern' expression'))))"

definition simplifyTypeBinding ::
  "(Type \<Rightarrow> Error + Type) \<Rightarrow> TypeBinding \<Rightarrow> Error + TypeBinding" where
  "simplifyTypeBinding tsimp b =
     (case b of TypeBinding position typeVariableSequence name ty \<Rightarrow>
        (case tsimp ty of
           Inl e \<Rightarrow> Inl e
         | Inr ty' \<Rightarrow> Inr (TypeBinding position typeVariableSequence name ty')))"

definition simplifyConstructor ::
  "(Type \<Rightarrow> Error + Type) \<Rightarrow> PToken \<times> Type option \<Rightarrow> Error + (PToken \<times> Type option)" where
  "simplifyConstructor tsimp c =
     (case snd c of
        Some ty \<Rightarrow> (case tsimp ty of Inl e \<Rightarrow> Inl e | Inr ty' \<Rightarrow> Inr (fst c, Some ty'))
      | None \<Rightarrow> Inr c)"

definition simplifyDatatypeBinding ::
  "(Type \<Rightarrow> Error + Type) \<Rightarrow> DatatypeBinding \<Rightarrow> Error + DatatypeBinding" where
  "simplifyDatatypeBinding tsimp b =
     (case b of DatatypeBinding position typeVariableSequence name ty \<Rightarrow>
        (case mapE (simplifyConstructor tsimp) ty of
           Inl e \<Rightarrow> Inl e
         | Inr ntype \<Rightarrow> Inr (DatatypeBinding position typeVariableSequence name ntype)))"

text \<open>
  \<open>FunctionValueBinding.simplify\<close>.  The parameters are named \<open>__arg0\<close>, \<open>__arg1\<close>, ...;
  their number is the number of patterns of the first clause, and reading the first
  clause of an empty list of clauses is a TypeError of the runtime.
\<close>

definition clauseMatch ::
  "PatternExpression list \<times> Type option \<times> PatternExpression
     \<Rightarrow> PatternExpression \<times> PatternExpression" where
  "clauseMatch c =
     (case c of (patterns, ty, body) \<Rightarrow>
        (if length patterns = 1 then patterns ! 0 else Tuple (- 1) patterns,
         case ty of None \<Rightarrow> body | Some t \<Rightarrow> TypedExpression (- 1) body t))"

text \<open>The loop that builds the lambdas around the case analysis, from the last
  parameter to the first: \<open>wrapLambdas i e\<close> is what the rounds \<open>i - 1\<close> down to \<open>0\<close>
  make of \<open>e\<close>.\<close>

fun wrapLambdas :: "nat \<Rightarrow> PatternExpression \<Rightarrow> PatternExpression" where
  "wrapLambdas 0 e = e"
| "wrapLambdas (Suc i) e =
     wrapLambdas i (Lambda (- 1) (Match (- 1) [(argIdentifier i, e)]))"

definition simplifyFunctionValueBinding ::
  "(PatternExpression \<Rightarrow> Error + PatternExpression) \<Rightarrow> FunctionValueBinding
     \<Rightarrow> Error + ValueBinding" where
  "simplifyFunctionValueBinding esimp b =
     (case b of FunctionValueBinding position parameters name \<Rightarrow>
        (case name of
           None \<Rightarrow> Inl InternalInterpreterError
         | Some (namePosition, nameToken) \<Rightarrow>
             (case parameters of
                [] \<Rightarrow> Inl TypeError
              | first # _ \<Rightarrow>
                  (let arr = map argIdentifier [0..<length (fst first)];
                       matches = map clauseMatch parameters
                   in
                   case (if length arr \<noteq> 1 then esimp (Tuple (- 1) arr) else Inr (arr ! 0)) of
                     Inl e \<Rightarrow> Inl e
                   | Inr pat \<Rightarrow>
                       (case esimp (wrapLambdas (length (fst first))
                                      (CaseAnalysis (- 1) pat (Match (- 1) matches))) of
                          Inl e \<Rightarrow> Inl e
                        | Inr expr \<Rightarrow>
                            Inr (ValueBinding position True
                                   (ValueIdentifier namePosition nameToken) expr))))))"

fun simplify ::
  "(PatternExpression \<Rightarrow> Error + PatternExpression) \<Rightarrow> (Type \<Rightarrow> Error + Type)
     \<Rightarrow> Declaration \<Rightarrow> Error + Declaration" where
  "simplify esimp tsimp (ValueDeclaration position tvs valueBinding i) =
     (case mapE (simplifyValueBinding esimp) valueBinding of
        Inl e \<Rightarrow> Inl e
      | Inr valBnd \<Rightarrow> Inr (ValueDeclaration position tvs valBnd i))"
| "simplify esimp tsimp (TypeDeclaration position typeBinding i) =
     (case mapE (simplifyTypeBinding tsimp) typeBinding of
        Inl e \<Rightarrow> Inl e
      | Inr bnds \<Rightarrow> Inr (TypeDeclaration position bnds i))"
| "simplify esimp tsimp (DatatypeDeclaration position datatypeBinding typeBinding i) =
     (case mapE (simplifyDatatypeBinding tsimp) datatypeBinding of
        Inl e \<Rightarrow> Inl e
      | Inr datbnd \<Rightarrow> Inr (DatatypeDeclaration position datbnd None i))"
| "simplify esimp tsimp (DatatypeReplication position name oldname i) =
     Inr (DatatypeReplication position name oldname i)"
| "simplify esimp tsimp (AbstypeDeclaration position datatypeBinding typeBinding declaration i) =
     (case mapE (simplifyDatatypeBinding tsimp) datatypeBinding of
        Inl e \<Rightarrow> Inl e
      | Inr datbnd \<Rightarrow>
          (case simplify esimp tsimp declaration of
             Inl e \<Rightarrow> Inl e
           | Inr declaration' \<Rightarrow>
               if typeBinding \<noteq> None then Inl FeatureDisabledError
               else Inr (AbstypeDeclaration position datbnd typeBinding declaration' i)))"
| "simplify esimp tsimp (ExceptionDeclaration position bindings i) =
     Inr (ExceptionDeclaration position bindings i)"
| "simplify esimp tsimp (LocalDeclaration position declaration body i) =
     (case simplify esimp tsimp declaration of
        Inl e \<Rightarrow> Inl e
      | Inr declaration' \<Rightarrow>
          (case simplify esimp tsimp body of
             Inl e \<Rightarrow> Inl e
           | Inr body' \<Rightarrow> Inr (LocalDeclaration position declaration' body' i)))"
| "simplify esimp tsimp (OpenDeclaration position names i) =
     Inr (OpenDeclaration position names i)"
| "simplify esimp tsimp (EmptyDeclaration i) = Inr (EmptyDeclaration i)"
| "simplify esimp tsimp (SequentialDeclaration position declarations i) =
     (case mapE (simplify esimp tsimp) declarations of
        Inl e \<Rightarrow> Inl e
      | Inr decls \<Rightarrow> Inr (SequentialDeclaration position decls i))"
| "simplify esimp tsimp (FunctionDeclaration position tvs functionValueBinding i) =
     (case mapE (simplifyFunctionValueBinding esimp) functionValueBinding of
        Inl e \<Rightarrow> Inl e
      | Inr valbnd \<Rightarrow> Inr (ValueDeclaration position tvs valbnd i))"
| "simplify esimp tsimp (InfixDeclaration position operators precedence i) =
     Inr (InfixDeclaration position operators precedence i)"
| "simplify esimp tsimp (InfixRDeclaration position operators precedence i) =
     Inr (InfixRDeclaration position operators precedence i)"
| "simplify esimp tsimp (NonfixDeclaration position operators i) =
     Inr (NonfixDeclaration position operators i)"

subsection \<open>The right-hand side of a simplified function declaration, as a term\<close>




subsection \<open>An input for the simplification\<close>




section \<open>Simplification of expressions\<close>

text \<open>
  Modelled from the spec: the \<open>simplify\<close> methods of expressions, patterns and types
  (expressions.ts and types.ts are not among the sources).  "Simplification rewrites
  every surface node to a core calculus": a tuple becomes the record with the labels
  \<open>1..n\<close>, a list \<open>e1 :: e2 :: ... :: en :: nil\<close>, a sequence
  \<open>case e1 of _ => case e2 of _ => e3\<close>, a conditional \<open>case c of true => t | false => e\<close>,
  \<open>andalso\<close> and \<open>orelse\<close> a conditional with the literal \<open>false\<close> or \<open>true\<close>, and a loop
  \<open>val rec loop = fn () => if c then (body; loop ()) else ()\<close> followed by \<open>loop ()\<close>,
  a \<open>let\<close> in which the conditional and the sequence are in their simplified forms; a
  record keeps its flag \<open>complete\<close>; a \<open>let\<close> keeps its form, with its declaration and
  its expression simplified.  Every other node is rebuilt from its simplified parts.  A
  node that a rule makes has the position of the node it replaces.  The spec gives no
  rule for types: a type is left as it is.

  An expression holds declarations and a declaration holds expressions, so the two
  simplifications call each other.  \<open>simplifyFuel k\<close> is the simplification of
  expressions that goes \<open>k\<close> levels of \<open>let\<close> and \<open>while\<close> deep and leaves what lies deeper
  as it is; \<open>simplifyExpression\<close> goes as deep as the expression is.
\<close>

definition bindE :: "Error + 'a \<Rightarrow> ('a \<Rightarrow> Error + 'b) \<Rightarrow> Error + 'b" where
  "bindE m f = (case m of Inl e \<Rightarrow> Inl e | Inr x \<Rightarrow> f x)"

lemma bindE_simps [simp]: "bindE (Inl e) f = Inl e" "bindE (Inr x) f = f x"
  by (simp_all add: bindE_def)

lemma bindE_cong [fundef_cong]:
  "m = m' \<Longrightarrow> (\<And>x. m' = Inr x \<Longrightarrow> f x = g x) \<Longrightarrow> bindE m f = bindE m' g"
  by (cases m') (simp_all add: bindE_def)

definition simplifyType :: "Type \<Rightarrow> Error + Type" where
  "simplifyType t = Inr t"

definition namedIdentifier :: "Position \<Rightarrow> string \<Rightarrow> PatternExpression" where
  "namedIdentifier p name = ValueIdentifier p (AlphanumericIdentifierToken name, p)"

definition tupleRecord :: "Position \<Rightarrow> PatternExpression list \<Rightarrow> PatternExpression" where
  "tupleRecord p es = Record p True (zip (map natToString [1..<Suc (length es)]) es)"

definition consExpression ::
  "Position \<Rightarrow> PatternExpression \<Rightarrow> PatternExpression \<Rightarrow> PatternExpression" where
  "consExpression p e rest =
     FunctionApplication p (ValueIdentifier p (IdentifierToken ''::'', p)) (tupleRecord p [e, rest])"

fun sequenceCases :: "Position \<Rightarrow> PatternExpression list \<Rightarrow> PatternExpression" where
  "sequenceCases p [] = Sequence p []"
| "sequenceCases p [e] = e"
| "sequenceCases p (e # es) = CaseAnalysis p e (Match p [(Wildcard p, sequenceCases p es)])"

declare sequenceCases.simps [simp del]

definition conditionalCase ::
  "Position \<Rightarrow> PatternExpression \<Rightarrow> PatternExpression \<Rightarrow> PatternExpression \<Rightarrow> PatternExpression"
  where
  "conditionalCase p c t e =
     CaseAnalysis p c (Match p [(namedIdentifier p ''true'', t), (namedIdentifier p ''false'', e)])"

definition whileLoop ::
  "Position \<Rightarrow> PatternExpression \<Rightarrow> PatternExpression \<Rightarrow> PatternExpression" where
  "whileLoop p c body =
     LocalDeclarationExpression p
       (ValueDeclaration p []
          [ValueBinding p True (namedIdentifier p ''loop'')
             (Lambda p (Match p
                [(tupleRecord p [],
                  conditionalCase p c
                    (sequenceCases p
                       [body, FunctionApplication p (namedIdentifier p ''loop'') (tupleRecord p [])])
                    (tupleRecord p []))]))] 0)
       (FunctionApplication p (namedIdentifier p ''loop'') (tupleRecord p []))"

fun simplifyFuel :: "nat \<Rightarrow> PatternExpression \<Rightarrow> Error + PatternExpression"
  and simplifyMatch :: "nat \<Rightarrow> Match \<Rightarrow> Error + Match" where
  "simplifyFuel k (ValueIdentifier p t) = Inr (ValueIdentifier p t)"
| "simplifyFuel k (Wildcard p) = Inr (Wildcard p)"
| "simplifyFuel k (Constant p t) = Inr (Constant p t)"
| "simplifyFuel k (RecordSelector p t) = Inr (RecordSelector p t)"
| "simplifyFuel k (LayeredPattern p t ty pat) =
     bindE (simplifyFuel k pat) (\<lambda>pat'. Inr (LayeredPattern p t ty pat'))"
| "simplifyFuel k (Tuple p es) =
     bindE (mapE (simplifyFuel k) es) (\<lambda>es'. Inr (tupleRecord p es'))"
| "simplifyFuel k (List p es) =
     bindE (mapE (simplifyFuel k) es)
       (\<lambda>es'. Inr (foldr (consExpression p) es' (namedIdentifier p ''nil'')))"
| "simplifyFuel k (Sequence p es) =
     bindE (mapE (simplifyFuel k) es) (\<lambda>es'. Inr (sequenceCases p es'))"
| "simplifyFuel k (Record p isComplete entries) =
     bindE (mapE (\<lambda>(label, e). bindE (simplifyFuel k e) (\<lambda>e'. Inr (label, e'))) entries)
       (\<lambda>entries'. Inr (Record p isComplete entries'))"
| "simplifyFuel k (TypedExpression p e t) =
     bindE (simplifyFuel k e) (\<lambda>e'. Inr (TypedExpression p e' t))"
| "simplifyFuel k (FunctionApplication p f a) =
     bindE (simplifyFuel k f) (\<lambda>f'. bindE (simplifyFuel k a)
       (\<lambda>a'. Inr (FunctionApplication p f' a')))"
| "simplifyFuel k (HandleException p e m) =
     bindE (simplifyFuel k e) (\<lambda>e'. bindE (simplifyMatch k m)
       (\<lambda>m'. Inr (HandleException p e' m')))"
| "simplifyFuel k (RaiseException p e) =
     bindE (simplifyFuel k e) (\<lambda>e'. Inr (RaiseException p e'))"
| "simplifyFuel k (Lambda p m) = bindE (simplifyMatch k m) (\<lambda>m'. Inr (Lambda p m'))"
| "simplifyFuel k (CaseAnalysis p e m) =
     bindE (simplifyFuel k e) (\<lambda>e'. bindE (simplifyMatch k m)
       (\<lambda>m'. Inr (CaseAnalysis p e' m')))"
| "simplifyFuel k (Conditional p c t e) =
     bindE (simplifyFuel k c) (\<lambda>c'. bindE (simplifyFuel k t) (\<lambda>t'. bindE (simplifyFuel k e)
       (\<lambda>e'. Inr (conditionalCase p c' t' e'))))"
| "simplifyFuel k (Conjunction p a b) =
     bindE (simplifyFuel k a) (\<lambda>a'. bindE (simplifyFuel k b)
       (\<lambda>b'. Inr (conditionalCase p a' b' (namedIdentifier p ''false''))))"
| "simplifyFuel k (Disjunction p a b) =
     bindE (simplifyFuel k a) (\<lambda>a'. bindE (simplifyFuel k b)
       (\<lambda>b'. Inr (conditionalCase p a' (namedIdentifier p ''true'') b')))"
| "simplifyFuel 0 (While p c body) = Inr (While p c body)"
| "simplifyFuel (Suc k) (While p c body) =
     bindE (simplifyFuel k c) (\<lambda>c'. bindE (simplifyFuel k body)
       (\<lambda>body'. Inr (whileLoop p c' body')))"
| "simplifyFuel 0 (LocalDeclarationExpression p d e) = Inr (LocalDeclarationExpression p d e)"
| "simplifyFuel (Suc k) (LocalDeclarationExpression p d e) =
     bindE (simplify (\<lambda>x. simplifyFuel k x) simplifyType d)
       (\<lambda>d'. bindE (simplifyFuel (Suc k) e)
          (\<lambda>e'. Inr (LocalDeclarationExpression p d' e')))"
| "simplifyMatch k (Match p rules) =
     bindE (mapE (\<lambda>(pat, e). bindE (simplifyFuel k pat) (\<lambda>pat'. bindE (simplifyFuel k e)
              (\<lambda>e'. Inr (pat', e')))) rules)
       (\<lambda>rules'. Inr (Match p rules'))"

text \<open>How deep the \<open>let\<close> and \<open>while\<close> expressions of a node are nested.\<close>

definition maxList :: "nat list \<Rightarrow> nat" where
  "maxList ns = foldr max ns 0"

fun letDepth :: "PatternExpression \<Rightarrow> nat"
  and matchDepth :: "Match \<Rightarrow> nat"
  and valueBindingDepth :: "ValueBinding \<Rightarrow> nat"
  and functionValueBindingDepth :: "FunctionValueBinding \<Rightarrow> nat"
  and declarationDepth :: "Declaration \<Rightarrow> nat" where
  "letDepth (ValueIdentifier p t) = 0"
| "letDepth (Wildcard p) = 0"
| "letDepth (Constant p t) = 0"
| "letDepth (RecordSelector p t) = 0"
| "letDepth (LayeredPattern p t ty pat) = letDepth pat"
| "letDepth (Tuple p es) = maxList (map letDepth es)"
| "letDepth (List p es) = maxList (map letDepth es)"
| "letDepth (Sequence p es) = maxList (map letDepth es)"
| "letDepth (Record p isComplete entries) = maxList (map (\<lambda>(label, e). letDepth e) entries)"
| "letDepth (TypedExpression p e t) = letDepth e"
| "letDepth (FunctionApplication p f a) = max (letDepth f) (letDepth a)"
| "letDepth (HandleException p e m) = max (letDepth e) (matchDepth m)"
| "letDepth (RaiseException p e) = letDepth e"
| "letDepth (Lambda p m) = matchDepth m"
| "letDepth (CaseAnalysis p e m) = max (letDepth e) (matchDepth m)"
| "letDepth (Conditional p c t e) = max (letDepth c) (max (letDepth t) (letDepth e))"
| "letDepth (Conjunction p a b) = max (letDepth a) (letDepth b)"
| "letDepth (Disjunction p a b) = max (letDepth a) (letDepth b)"
| "letDepth (While p c body) = Suc (max (letDepth c) (letDepth body))"
| "letDepth (LocalDeclarationExpression p d e) = max (Suc (declarationDepth d)) (letDepth e)"
| "matchDepth (Match p rules) =
     maxList (map (\<lambda>(pat, e). max (letDepth pat) (letDepth e)) rules)"
| "valueBindingDepth (ValueBinding p r pat e) = max (letDepth pat) (letDepth e)"
| "functionValueBindingDepth (FunctionValueBinding p clauses name) =
     maxList (map (\<lambda>(pats, ty, body). max (maxList (map letDepth pats)) (letDepth body))
                clauses)"
| "declarationDepth (ValueDeclaration p tvs bs i) = maxList (map valueBindingDepth bs)"
| "declarationDepth (TypeDeclaration p bs i) = 0"
| "declarationDepth (DatatypeDeclaration p bs tb i) = 0"
| "declarationDepth (DatatypeReplication p n old i) = 0"
| "declarationDepth (AbstypeDeclaration p bs tb d i) = declarationDepth d"
| "declarationDepth (ExceptionDeclaration p bs i) = 0"
| "declarationDepth (LocalDeclaration p d b i) = max (declarationDepth d) (declarationDepth b)"
| "declarationDepth (OpenDeclaration p ns i) = 0"
| "declarationDepth (EmptyDeclaration i) = 0"
| "declarationDepth (SequentialDeclaration p ds i) = maxList (map declarationDepth ds)"
| "declarationDepth (FunctionDeclaration p tvs bs i) =
     maxList (map functionValueBindingDepth bs)"
| "declarationDepth (InfixDeclaration p ops prec i) = 0"
| "declarationDepth (InfixRDeclaration p ops prec i) = 0"
| "declarationDepth (NonfixDeclaration p ops i) = 0"

definition simplifyExpression :: "PatternExpression \<Rightarrow> Error + PatternExpression" where
  "simplifyExpression e = simplifyFuel (letDepth e) e"

subsection \<open>An input for the simplification of expressions\<close>

text \<open>The declaration \<open>val it = if a then (b, c) else [d]\<close> and what it is simplified to:
  \<open>val it = case a of true => {1 = b, 2 = c} | false => d :: nil\<close>.\<close>

definition named :: "int \<Rightarrow> string \<Rightarrow> PatternExpression" where
  "named p name = ValueIdentifier p (AlphanumericIdentifierToken name, p)"

definition conditionalDeclaration :: Declaration where
  "conditionalDeclaration = ValueDeclaration 0 []
     [ValueBinding 4 False (named 4 ''it'')
        (Conditional 9 (named 12 ''a'')
           (Tuple 19 [named 20 ''b'', named 23 ''c''])
           (List 31 [named 32 ''d'']))] 1"

definition conditionalCore :: Declaration where
  "conditionalCore = ValueDeclaration 0 []
     [ValueBinding 4 False (named 4 ''it'')
        (CaseAnalysis 9 (named 12 ''a'')
           (Match 9
              [(named 9 ''true'',
                Record 19 True [(''1'', named 20 ''b''), (''2'', named 23 ''c'')]),
               (named 9 ''false'',
                FunctionApplication 31 (ValueIdentifier 31 (IdentifierToken ''::'', 31))
                  (Record 31 True [(''1'', named 32 ''d''), (''2'', named 31 ''nil'')]))]))] 1"

section \<open>Evaluation of declarations\<close>

text \<open>
  \<open>evaluate\<close> of declarations.ts and \<open>FunctionValue.compute\<close> of values.ts.  Each takes
  the store and returns it as it has left it, also when it throws: what it has changed
  before the throw stays changed.  How an expression is computed and how a pattern
  matches a value is in expressions.ts, which is not among the sources: \<open>compute\<close>
  (\<open>Expression.compute\<close>), \<open>matches\<close> (\<open>Pattern.matches\<close>) and \<open>mcompute\<close>
  (\<open>Match.compute\<close>) are parameters.  A computation returns a value and the flag that
  says whether the value is a raised exception; a match returns its bindings, or nothing
  when the pattern does not match; each may throw and may change the store.  The result
  of \<open>evaluate\<close> is the triple of the state, the flag and the raised exception, if any.
\<close>

type_synonym 'a Result = "(Error + 'a) \<times> Store"
type_synonym Compute = "PatternExpression \<Rightarrow> StateRef \<Rightarrow> Store \<Rightarrow> (Value \<times> bool) Result"
type_synonym Matches =
  "PatternExpression \<Rightarrow> StateRef \<Rightarrow> Value \<Rightarrow> Store \<Rightarrow> ((string \<times> Value) list option) Result"
type_synonym MatchCompute = "Match \<Rightarrow> StateRef \<Rightarrow> Value \<Rightarrow> Store \<Rightarrow> (Value \<times> bool) Result"
type_synonym Evaluation = "(StateRef \<times> bool \<times> Value option) Result"

definition setDynamicValues :: "(string \<times> Value) list \<Rightarrow> StateRef \<Rightarrow> Store \<Rightarrow> Store" where
  "setDynamicValues bindings state store =
     foldl (\<lambda>s (name, v). setDynamicValue name v state s) store bindings"

text \<open>\<open>FunctionValue.compute\<close>: the siblings are bound again in a new state nested under
  the captured one, each function among them with the captured state and the whole
  group, and the body is computed there.\<close>

definition adjoinRecursive :: "StateRef \<Rightarrow> (string \<times> Value) list \<Rightarrow> Value \<Rightarrow> Value" where
  "adjoinRecursive state recursives v =
     (case v of FunctionValue s r body \<Rightarrow> FunctionValue state recursives body | _ \<Rightarrow> v)"

definition FunctionValue_compute ::
  "MatchCompute \<Rightarrow> StateRef \<Rightarrow> (string \<times> Value) list \<Rightarrow> Match \<Rightarrow> Value \<Rightarrow> Store
     \<Rightarrow> (Value \<times> bool) Result" where
  "FunctionValue_compute mcompute state recursives body argument store =
     (case getNestedState False (stateId (store ! state)) state store of
        (nstate, store1) \<Rightarrow>
          mcompute body nstate argument
            (setDynamicValues
               (map (\<lambda>(name, v). (name, adjoinRecursive state recursives v)) recursives)
               nstate store1))"

text \<open>\<open>ValueBinding.compute\<close>: the bindings of the pattern, or the raised exception.\<close>

definition ValueBinding_compute ::
  "Compute \<Rightarrow> Matches \<Rightarrow> StateRef \<Rightarrow> ValueBinding \<Rightarrow> Store
     \<Rightarrow> ((string \<times> Value) list option \<times> Value option) Result" where
  "ValueBinding_compute compute matches state b store =
     (case b of ValueBinding position isRecursive pattern expression \<Rightarrow>
        (case compute expression state store of
           (Inl e, store1) \<Rightarrow> (Inl e, store1)
         | (Inr (v, threw), store1) \<Rightarrow>
             if threw then (Inr (None, Some v), store1)
             else (case matches pattern state v store1 of
                     (Inl e, store2) \<Rightarrow> (Inl e, store2)
                   | (Inr ve, store2) \<Rightarrow> (Inr (ve, None), store2))))"

fun isRecursive :: "ValueBinding \<Rightarrow> bool" where
  "isRecursive (ValueBinding position r pattern expression) = r"

text \<open>The first loop of \<open>ValueDeclaration.evaluate\<close>.  It ends with the exception to
  return (\<open>Inl\<close>), or with the lists \<open>result\<close> and \<open>recursives\<close>.\<close>

fun valueBindingLoop ::
  "Compute \<Rightarrow> Matches \<Rightarrow> StateRef \<Rightarrow> ValueBinding list \<Rightarrow> bool
     \<Rightarrow> (string \<times> Value) list \<Rightarrow> (string \<times> Value) list \<Rightarrow> Store
     \<Rightarrow> (Value + (string \<times> Value) list \<times> (string \<times> Value) list) Result" where
  "valueBindingLoop compute matches state [] isRec result recursives store =
     (Inr (Inr (result, recursives)), store)"
| "valueBindingLoop compute matches state (b # bs) isRec result recursives store =
     (case ValueBinding_compute compute matches state b store of
        (Inl e, store1) \<Rightarrow> (Inl e, store1)
      | (Inr (ve, exn), store1) \<Rightarrow>
          (case exn of
             Some x \<Rightarrow> (Inr (Inl x), store1)
           | None \<Rightarrow>
               (case ve of
                  None \<Rightarrow> (Inr (Inl (ExceptionValue ''Bind'' None 0)), store1)
                | Some bindings \<Rightarrow>
                    if \<not> (isRec \<or> isRecursive b)
                    then valueBindingLoop compute matches state bs (isRec \<or> isRecursive b)
                           (result @ bindings) recursives store1
                    else valueBindingLoop compute matches state bs (isRec \<or> isRecursive b)
                           result (recursives @ bindings) store1)))"

definition rebuildRecursive :: "(string \<times> Value) list \<Rightarrow> Value \<Rightarrow> Value" where
  "rebuildRecursive recursives v =
     (case v of FunctionValue s r body \<Rightarrow> FunctionValue s recursives body | _ \<Rightarrow> v)"

definition ValueDeclaration_evaluate ::
  "Compute \<Rightarrow> Matches \<Rightarrow> StateRef \<Rightarrow> ValueBinding list \<Rightarrow> Store \<Rightarrow> Evaluation" where
  "ValueDeclaration_evaluate compute matches state valueBinding store =
     (case valueBindingLoop compute matches state valueBinding False [] [] store of
        (Inl e, store1) \<Rightarrow> (Inl e, store1)
      | (Inr (Inl exn), store1) \<Rightarrow> (Inr (state, True, Some exn), store1)
      | (Inr (Inr (result, recursives)), store1) \<Rightarrow>
          (Inr (state, False, None),
           setDynamicValues
             (map (\<lambda>(name, v). (name, rebuildRecursive recursives v)) recursives) state
             (setDynamicValues result state store1)))"

text \<open>\<open>DatatypeBinding.compute\<close>: the constructors of a datatype, each with the id its
  name has in the state, which is incremented.\<close>

fun computeConstructors ::
  "StateRef \<Rightarrow> (PToken \<times> Type option) list \<Rightarrow> (string \<times> Value) list \<Rightarrow> string list \<Rightarrow> Store
     \<Rightarrow> ((string \<times> Value) list \<times> string list) \<times> Store" where
  "computeConstructors state [] ve connames store = ((ve, connames), store)"
| "computeConstructors state (c # cs) ve connames store =
     (let name = ptext (fst c);
          numArg = (if snd c \<noteq> None then 1 else 0);
          i = getValueIdentifierId name state store
      in computeConstructors state cs (ve @ [(name, ValueConstructor name numArg i)])
           (connames @ [name]) (incrementValueIdentifierId name state store))"

definition DatatypeBinding_compute ::
  "StateRef \<Rightarrow> DatatypeBinding \<Rightarrow> Store
     \<Rightarrow> ((string \<times> Value) list \<times> (string \<times> string list)) \<times> Store" where
  "DatatypeBinding_compute state b store =
     (case b of DatatypeBinding position tvs name ty \<Rightarrow>
        (case computeConstructors state ty [] [] store of
           ((ve, connames), store1) \<Rightarrow> ((ve, (ptext name, connames)), store1)))"

text \<open>The inner loop of \<open>DatatypeDeclaration.evaluate\<close>, which refuses to rebind an
  identifier with the rebind status \<open>Never\<close>.\<close>

fun bindConstructors :: "StateRef \<Rightarrow> (string \<times> Value) list \<Rightarrow> Store \<Rightarrow> unit Result" where
  "bindConstructors state [] store = (Inr (), store)"
| "bindConstructors state ((name, v) # ve) store =
     (if getRebindStatus name state store = Never then (Inl EvaluationError, store)
      else bindConstructors state ve (setDynamicValue name v state store))"

fun DatatypeDeclaration_evaluate :: "StateRef \<Rightarrow> DatatypeBinding list \<Rightarrow> Store \<Rightarrow> unit Result" where
  "DatatypeDeclaration_evaluate state [] store = (Inr (), store)"
| "DatatypeDeclaration_evaluate state (b # bs) store =
     (case DatatypeBinding_compute state b store of
        ((ve, (name, connames)), store1) \<Rightarrow>
          (case bindConstructors state ve store1 of
             (Inl e, store2) \<Rightarrow> (Inl e, store2)
           | (Inr u, store2) \<Rightarrow>
               DatatypeDeclaration_evaluate state bs (setDynamicType name connames state store2)))"

text \<open>The loop of \<open>AbstypeDeclaration.evaluate\<close>, which binds the constructors without
  a check.\<close>

fun abstypeConstructors :: "StateRef \<Rightarrow> DatatypeBinding list \<Rightarrow> Store \<Rightarrow> Store" where
  "abstypeConstructors state [] store = store"
| "abstypeConstructors state (b # bs) store =
     (case DatatypeBinding_compute state b store of
        ((ve, names), store1) \<Rightarrow> abstypeConstructors state bs (setDynamicValues ve state store1))"

text \<open>\<open>evaluate\<close> of the two exception bindings.  \<open>DirectExceptionBinding\<close> increments
  the id of the name before it looks at the rebind status.\<close>

fun ExceptionBinding_evaluate :: "StateRef \<Rightarrow> ExceptionBinding \<Rightarrow> Store \<Rightarrow> Evaluation" where
  "ExceptionBinding_evaluate state (DirectExceptionBinding position name ty) store =
     (let numArg = (if ty \<noteq> None then 1 else 0);
          i = getValueIdentifierId (ptext name) state store;
          store1 = incrementValueIdentifierId (ptext name) state store
      in if getRebindStatus (ptext name) state store1 = Never then (Inl EvaluationError, store1)
         else (Inr (state, False, None),
               setDynamicValue (ptext name) (ExceptionConstructor (ptext name) numArg i)
                 state store1))"
| "ExceptionBinding_evaluate state (ExceptionAlias position name oldname) store =
     (case getDynamicValue (ptext oldname) state store of
        None \<Rightarrow> (Inl EvaluationError, store)
      | Some res \<Rightarrow> (Inr (state, False, None), setDynamicValue (ptext name) res state store))"

fun ExceptionDeclaration_evaluate :: "StateRef \<Rightarrow> ExceptionBinding list \<Rightarrow> Store \<Rightarrow> Evaluation" where
  "ExceptionDeclaration_evaluate state [] store = (Inr (state, False, None), store)"
| "ExceptionDeclaration_evaluate state (b # bs) store =
     (case ExceptionBinding_evaluate state b store of
        (Inl e, store1) \<Rightarrow> (Inl e, store1)
      | (Inr (state', threw, exn), store1) \<Rightarrow>
          if threw then (Inr (state', threw, exn), store1)
          else ExceptionDeclaration_evaluate state' bs store1)"

definition setInfixStatuses ::
  "PToken list \<Rightarrow> int \<Rightarrow> bool \<Rightarrow> bool \<Rightarrow> StateRef \<Rightarrow> Store \<Rightarrow> Store" where
  "setInfixStatuses operators precedence rightAssociative isInfix state store =
     foldl (\<lambda>s t. setInfixStatus t precedence rightAssociative isInfix state s) store operators"

fun typeBindingName :: "TypeBinding \<Rightarrow> string" where
  "typeBindingName (TypeBinding position tvs name ty) = ptext name"

text \<open>
  \<open>evaluate\<close>, with \<open>evaluateDeclarations\<close> for the loop of
  \<open>SequentialDeclaration.evaluate\<close>.  \<open>FunctionDeclaration\<close> has no \<open>evaluate\<close> of its
  own and inherits the one of \<open>Declaration\<close>, which throws.
\<close>

fun evaluate :: "Compute \<Rightarrow> Matches \<Rightarrow> StateRef \<Rightarrow> Declaration \<Rightarrow> Store \<Rightarrow> Evaluation"
  and evaluateDeclarations ::
    "Compute \<Rightarrow> Matches \<Rightarrow> StateRef \<Rightarrow> Declaration list \<Rightarrow> Store \<Rightarrow> Evaluation"
  where
  "evaluate compute matches state (ValueDeclaration position tvs valueBinding i) store =
     ValueDeclaration_evaluate compute matches state valueBinding store"
| "evaluate compute matches state (TypeDeclaration position typeBinding i) store =
     (Inr (state, False, None),
      foldl (\<lambda>s b. setDynamicType (typeBindingName b) [] state s) store typeBinding)"
| "evaluate compute matches state (DatatypeDeclaration position datatypeBinding typeBinding i)
     store =
     (case DatatypeDeclaration_evaluate state datatypeBinding store of
        (Inl e, store1) \<Rightarrow> (Inl e, store1)
      | (Inr u, store1) \<Rightarrow> (Inr (state, False, None), store1))"
| "evaluate compute matches state (DatatypeReplication position name oldname i) store =
     (case getDynamicType (ptext oldname) state store of
        None \<Rightarrow> (Inl EvaluationError, store)
      | Some res \<Rightarrow> (Inr (state, False, None), setDynamicType (ptext name) res state store))"
| "evaluate compute matches state
     (AbstypeDeclaration position datatypeBinding typeBinding declaration i) store =
     evaluate compute matches state declaration (abstypeConstructors state datatypeBinding store)"
| "evaluate compute matches state (ExceptionDeclaration position bindings i) store =
     ExceptionDeclaration_evaluate state bindings store"
| "evaluate compute matches state (LocalDeclaration position declaration body i) store =
     (case getNestedState False (stateId (store ! state)) state store of
        (nstate, store1) \<Rightarrow>
          (case evaluate compute matches nstate declaration store1 of
             (Inl e, store2) \<Rightarrow> (Inl e, store2)
           | (Inr (state1, threw, exn), store2) \<Rightarrow>
               if threw then (Inr (state, True, exn), store2)
               else
                 (case getNestedState False (stateId (store2 ! state)) state1 store2 of
                    (nstate2, store3) \<Rightarrow>
                      (case evaluate compute matches nstate2 body store3 of
                         (Inl e, store4) \<Rightarrow> (Inl e, store4)
                       | (Inr (state2, threw2, exn2), store4) \<Rightarrow>
                           (Inr (state2, threw2, exn2), setParent state state2 store4)))))"
| "evaluate compute matches state (OpenDeclaration position names i) store =
     (Inl InternalInterpreterError, store)"
| "evaluate compute matches state (EmptyDeclaration i) store = (Inr (state, False, None), store)"
| "evaluate compute matches state (SequentialDeclaration position declarations i) store =
     evaluateDeclarations compute matches state declarations store"
| "evaluate compute matches state (FunctionDeclaration position tvs functionValueBinding i) store =
     (Inl InternalInterpreterError, store)"
| "evaluate compute matches state (InfixDeclaration position operators precedence i) store =
     (Inr (state, False, None), setInfixStatuses operators precedence False True state store)"
| "evaluate compute matches state (InfixRDeclaration position operators precedence i) store =
     (Inr (state, False, None), setInfixStatuses operators precedence True True state store)"
| "evaluate compute matches state (NonfixDeclaration position operators i) store =
     (Inr (state, False, None), setInfixStatuses operators 0 False False state store)"
| "evaluateDeclarations compute matches state [] store = (Inr (state, False, None), store)"
| "evaluateDeclarations compute matches state (d # ds) store =
     (case getNestedState True (declarationId d) state store of
        (nstate, store1) \<Rightarrow>
          (case evaluate compute matches nstate d store1 of
             (Inl e, store2) \<Rightarrow> (Inl e, store2)
           | (Inr (state', threw, exn), store2) \<Rightarrow>
               if threw then (Inr (state', threw, exn), store2)
               else evaluateDeclarations compute matches state' ds store2))"

subsection \<open>States that a declaration leaves as they are, and ancestors\<close>

text \<open>\<open>unchangedExcept state store store'\<close>: every state of \<open>store\<close> other than \<open>state\<close> is
  in \<open>store'\<close> as it is in \<open>store\<close>, and \<open>state\<close> has the parent it had.\<close>

definition unchangedExcept :: "StateRef \<Rightarrow> Store \<Rightarrow> Store \<Rightarrow> bool" where
  "unchangedExcept state store store' \<longleftrightarrow>
     length store \<le> length store'
     \<and> (\<forall>b < length store.
          parent (store' ! b) = parent (store ! b) \<and> (b \<noteq> state \<longrightarrow> store' ! b = store ! b))"

text \<open>The states above a state, nearest first.\<close>

function properAncestors :: "StateRef \<Rightarrow> Store \<Rightarrow> StateRef list" where
  "properAncestors state store =
     (if state < length store then
        (case parent (store ! state) of
           None \<Rightarrow> []
         | Some q \<Rightarrow> if q < state then q # properAncestors q store else [])
      else [])"
  by pat_completeness auto
termination
  by (relation "measure (\<lambda>(state, store). state)") auto

declare properAncestors.simps [simp del]

subsection \<open>Inputs for the evaluation\<close>

text \<open>An expression evaluation in which every expression raises \<open>Match\<close>, and a pattern
  match that binds nothing; neither touches the store.\<close>

definition raising :: Compute where
  "raising e state store = (Inr (ExceptionValue ''Match'' None 0, True), store)"

definition bindingNothing :: Matches where
  "bindingNothing p state v store = (Inr (Some []), store)"

text \<open>The declarations \<open>infix 5 ++ exception X val y = e\<close>, and \<open>val y = e\<close> alone.\<close>

definition valYE :: Declaration where
  "valYE = ValueDeclaration 24 []
     [ValueBinding 28 False (ValueIdentifier 28 (AlphanumericIdentifierToken ''y'', 28))
        (ValueIdentifier 32 (AlphanumericIdentifierToken ''e'', 32))] 4"



text \<open>A store with one state, in which \<open>true\<close> is bound and may never be rebound, as the
  spec says of the initial state, and in which the exception \<open>Match\<close> is bound.\<close>

definition protectedStore :: Store where
  "protectedStore =
     [(emptyState 0 None)
        \<lparr>dynamicValues :=
           [(''true'', BoolValue True), (''Match'', ExceptionConstructor ''Match'' 0 0)],
         rebindEnvironment := [(''true'', Never)]\<rparr>]"



section \<open>The lexer\<close>

text \<open>
  The class \<open>Lexer\<close> of lexer.ts.  Its input never changes and is an argument of every
  function; the record holds the two fields that do change.  The input is a list of
  8-bit characters; the characters of a string constant's value are kept as their codes,
  because an escape can name a code beyond 255.
\<close>

record Lexer =
  position :: nat
  tokenStart :: nat

record LexerOptions =
  allowUnicodeInStrings :: bool

definition reservedWords :: "string list" where
  "reservedWords =
    [''abstype'', ''and'', ''andalso'', ''as'', ''case'', ''datatype'', ''do'', ''else'',
     ''end'', ''exception'', ''fn'', ''fun'', ''handle'', ''if'', ''in'', ''inf'' @ ''ix'',
     ''inf'' @ ''ixr'', ''let'', ''local'', ''nonfix'', ''of'', ''op'', ''open'', ''orelse'',
     ''raise'', ''rec'', ''then'', ''type'', ''val'', ''with'', ''withtype'', ''while'',
     ''('', '')'', ''['', '']'', ''{'', ''}'', '','', '':'', '';'', ''...'', ''_'', ''|'',
     ''='', ''=>'', ''->'', ''#'',
     ''eqtype'', ''functor'', ''signature'', ''struct'', ''include'', ''sharing'',
     ''structure'', ''where'', ''sig'', '':>'']"

definition symbolicCharacters :: "char list" where
  "symbolicCharacters =
    [CHR ''!'', CHR ''%'', CHR ''&'', CHR ''$'', CHR ''#'', CHR ''+'', CHR ''-'', CHR ''/'',
     CHR '':'', CHR ''<'', CHR ''='', CHR ''>'', CHR ''?'', CHR ''@'', CHR 0x5C, CHR ''~'',
     CHR 0x60, CHR ''^'', CHR ''|'', CHR ''*'']"

definition isAlphanumeric :: "char \<Rightarrow> bool" where
  "isAlphanumeric c =
    ((CHR ''a'' \<le> c \<and> c \<le> CHR ''z'') \<or> (CHR ''A'' \<le> c \<and> c \<le> CHR ''Z'')
     \<or> (CHR ''0'' \<le> c \<and> c \<le> CHR ''9'') \<or> c = CHR 0x27 \<or> c = CHR ''_'')"

definition isSymbolic :: "char \<Rightarrow> bool" where
  "isSymbolic c = (c \<in> set symbolicCharacters)"

definition isWhitespace :: "char \<Rightarrow> bool" where
  "isWhitespace c = (c = CHR '' '' \<or> c = CHR 0x09 \<or> c = CHR 0x0A \<or> c = CHR 0x0C)"

definition isNumber :: "char \<Rightarrow> bool \<Rightarrow> bool" where
  "isNumber c hexadecimal =
    ((CHR ''0'' \<le> c \<and> c \<le> CHR ''9'')
     \<or> (hexadecimal \<and> ((CHR ''a'' \<le> c \<and> c \<le> CHR ''f'') \<or> (CHR ''A'' \<le> c \<and> c \<le> CHR ''F''))))"

text \<open>\<open>consumeChar\<close> throws at the end of the input; \<open>getChar\<close> answers the
  end-of-transmission character there.\<close>

definition consumeChar :: "string \<Rightarrow> Lexer \<Rightarrow> Error + (char \<times> Lexer)" where
  "consumeChar inp l =
    (if length inp \<le> position l then Inl IncompleteError
     else Inr (inp ! position l, l\<lparr>position := position l + 1\<rparr>))"

definition getChar :: "string \<Rightarrow> Lexer \<Rightarrow> nat \<Rightarrow> char" where
  "getChar inp l offset =
    (if length inp \<le> position l + offset then CHR 0x04 else inp ! (position l + offset))"

text \<open>\<open>input.substr(start, n)\<close> and \<open>input.substring(start, end)\<close> for
  \<open>start \<le> end\<close>.\<close>

definition substr :: "string \<Rightarrow> nat \<Rightarrow> nat \<Rightarrow> string" where
  "substr inp start n = take n (drop start inp)"

definition substring :: "string \<Rightarrow> nat \<Rightarrow> nat \<Rightarrow> string" where
  "substring inp start end' = take (end' - start) (drop start inp)"

function skipWhitespace :: "string \<Rightarrow> Lexer \<Rightarrow> Lexer" where
  "skipWhitespace inp l =
    (if isWhitespace (getChar inp l 0)
     then skipWhitespace inp (l\<lparr>position := position l + 1\<rparr>)
     else l)"
  by pat_completeness auto
termination
  by (relation "measure (\<lambda>(inp, l). length inp - position l)")
    (auto simp: getChar_def isWhitespace_def split: if_splits)

declare skipWhitespace.simps [simp del]

text \<open>The inner loop of \<open>skipWhitespaceAndComments\<close>, which runs while a comment is
  open.\<close>

function skipCommentBody :: "string \<Rightarrow> Lexer \<Rightarrow> nat \<Rightarrow> Error + Lexer" where
  "skipCommentBody inp l openComments =
    (if 0 < openComments then
       (if int (length inp) - 2 < int (position l) then Inl IncompleteError
        else if substr inp (position l) 2 = ''(*''
          then skipCommentBody inp (l\<lparr>position := position l + 2\<rparr>) (openComments + 1)
        else if substr inp (position l) 2 = ''*)''
          then skipCommentBody inp (l\<lparr>position := position l + 2\<rparr>) (openComments - 1)
        else skipCommentBody inp (l\<lparr>position := position l + 1\<rparr>) openComments)
     else Inr l)"
  by pat_completeness auto
termination
  by (relation "measure (\<lambda>(inp, l, n). length inp - position l)") auto


declare skipCommentBody.simps [simp del]

lemma skipCommentBody_position:
  "skipCommentBody inp l n = Inr l' \<Longrightarrow> position l \<le> position l'"
proof (induction inp l n arbitrary: l' rule: skipCommentBody.induct)
  case (1 inp l n)
  from "1.prems" "1.IH" show ?case
    unfolding skipCommentBody.simps [of inp l n]
    by (auto split: if_splits)
qed

text \<open>The loop over the comments that follow each other.\<close>

function skipComments :: "string \<Rightarrow> Lexer \<Rightarrow> Error + Lexer" where
  "skipComments inp l =
    (if position l + 1 < length inp \<and> substr inp (position l) 2 = ''(*'' then
       (case skipCommentBody inp (l\<lparr>position := position l + 2\<rparr>) 1 of
          Inl e \<Rightarrow> Inl e
        | Inr l' \<Rightarrow> skipComments inp l')
     else Inr l)"
  by pat_completeness auto
termination
  by (relation "measure (\<lambda>(inp, l). length inp - position l)")
    (auto dest!: skipCommentBody_position)

declare skipComments.simps [simp del]


lemma skipWhitespace_position: "position l \<le> position (skipWhitespace inp l)"
proof (induction inp l rule: skipWhitespace.induct)
  case (1 inp l)
  then show ?case
    unfolding skipWhitespace.simps [of inp l] by (auto split: if_splits)
qed

lemma skipWhitespace_moved:
  "position (skipWhitespace inp l) \<noteq> position l \<Longrightarrow> position l < length inp"
  unfolding skipWhitespace.simps [of inp l]
  by (auto simp: getChar_def isWhitespace_def split: if_splits)

lemma skipComments_position:
  "skipComments inp l = Inr l' \<Longrightarrow> position l \<le> position l'"
proof (induction inp l arbitrary: l' rule: skipComments.induct)
  case (1 inp l)
  from "1.prems" "1.IH" show ?case
    unfolding skipComments.simps [of inp l]
    by (fastforce split: if_splits sum.splits dest!: skipCommentBody_position)
qed

lemma skipComments_moved:
  "skipComments inp l = Inr l' \<Longrightarrow> position l' \<noteq> position l \<Longrightarrow> position l < length inp"
  unfolding skipComments.simps [of inp l]
  by (auto split: if_splits)

text \<open>The \<open>do ... while\<close> loop of \<open>skipWhitespaceAndComments\<close>: it runs again as long as
  a round has moved the position.\<close>

function skipLoop :: "string \<Rightarrow> Lexer \<Rightarrow> Error + Lexer" where
  "skipLoop inp l =
    (case skipComments inp (skipWhitespace inp l) of
       Inl e \<Rightarrow> Inl e
     | Inr l' \<Rightarrow> if position l' \<noteq> position l then skipLoop inp l' else Inr l')"
  by pat_completeness auto
termination
proof (relation "measure (\<lambda>(inp, l). length inp - position l)", goal_cases)
  case 1
  show ?case by simp
next
  case (2 inp l l')
  have a: "position l \<le> position (skipWhitespace inp l)"
    by (rule skipWhitespace_position)
  have b: "position (skipWhitespace inp l) \<le> position l'"
    using 2 by (auto dest: skipComments_position)
  have "position l < length inp"
  proof (cases "position (skipWhitespace inp l) = position l")
    case True
    with 2 skipComments_moved [of inp "skipWhitespace inp l" l'] show ?thesis by auto
  next
    case False
    then show ?thesis by (rule skipWhitespace_moved)
  qed
  with a b 2 show ?case by auto
qed

declare skipLoop.simps [simp del]

definition skipWhitespaceAndComments :: "string \<Rightarrow> Lexer \<Rightarrow> Error + Lexer" where
  "skipWhitespaceAndComments inp l =
    (case skipLoop inp l of
       Inl e \<Rightarrow> Inl e
     | Inr l' \<Rightarrow> Inr (l'\<lparr>tokenStart := position l'\<rparr>))"

text \<open>
  \<open>readNumeric\<close> reads digits while there are some and the result has not reached
  \<open>maxLength\<close> (\<open>-1\<close>: no bound).  \<open>consumeChar\<close> cannot throw in it: a digit is never
  the character that \<open>getChar\<close> answers at the end of the input.
\<close>

function readNumeric :: "string \<Rightarrow> bool \<Rightarrow> int \<Rightarrow> Lexer \<Rightarrow> string \<Rightarrow> string \<times> Lexer" where
  "readNumeric inp hexadecimal maxLength l result =
    (if isNumber (getChar inp l 0) hexadecimal \<and> int (length result) \<noteq> maxLength
     then readNumeric inp hexadecimal maxLength (l\<lparr>position := position l + 1\<rparr>)
            (result @ [getChar inp l 0])
     else (result, l))"
  by pat_completeness auto
termination
  by (relation "measure (\<lambda>(inp, h, m, l, r). length inp - position l)")
    (auto simp: getChar_def isNumber_def split: if_splits)

declare readNumeric.simps [simp del]

lemma readNumeric_position: "position l \<le> position (snd (readNumeric inp h m l r))"
proof (induction inp h m l r rule: readNumeric.induct)
  case (1 inp h m l r)
  then show ?case
    unfolding readNumeric.simps [of inp h m l r] by (auto split: if_splits)
qed

text \<open>
  \<open>parseInt(value, radix)\<close> on the strings \<open>lexNumber\<close> and \<open>lexString\<close> build: an
  optional minus sign and digits of the radix.  The number is exact in the model; as a
  JavaScript number it is rounded beyond \<open>2^53\<close>.
\<close>

definition digitValue :: "char \<Rightarrow> int" where
  "digitValue c =
    (if CHR ''0'' \<le> c \<and> c \<le> CHR ''9'' then int (of_char c) - 48
     else if CHR ''a'' \<le> c \<and> c \<le> CHR ''f'' then int (of_char c) - 87
     else int (of_char c) - 55)"

definition parseDigits :: "int \<Rightarrow> string \<Rightarrow> int" where
  "parseDigits radix ds = foldl (\<lambda>acc c. acc * radix + digitValue c) 0 ds"

definition parseInt :: "string \<Rightarrow> int \<Rightarrow> int" where
  "parseInt v radix =
    (case v of
       [] \<Rightarrow> 0
     | c # cs \<Rightarrow> if c = CHR ''-'' then - parseDigits radix cs else parseDigits radix v)"

text \<open>
  \<open>MAXINT\<close> and \<open>MININT\<close> are imported from values.ts, which does not define them in
  the version at hand: the two bounds are parameters of the lexer.
\<close>

definition makeNumberToken ::
  "int \<Rightarrow> int \<Rightarrow> string \<Rightarrow> Lexer \<Rightarrow> string \<Rightarrow> bool \<Rightarrow> bool \<Rightarrow> bool \<Rightarrow> Error + Token" where
  "makeNumberToken MININT MAXINT inp l v real' word hexadecimal =
    (if real' \<and> word then Inl InternalInterpreterError
     else
       (let token = substring inp (tokenStart l) (position l) in
        if real' then Inr (RealConstantToken token v)
        else
          (let n = parseInt v (if hexadecimal then 16 else 10) in
           if MAXINT < n then Inl LexerError
           else if n < MININT then Inl LexerError
           else if word then Inr (WordConstantToken token n)
           else
             (case token of
                [] \<Rightarrow> Inr (IntegerConstantToken token n)
              | firstChar # _ \<Rightarrow>
                  if isNumber firstChar False \<and> firstChar \<noteq> CHR ''0''
                  then Inr (NumericToken token n)
                  else Inr (IntegerConstantToken token n)))))"

definition withLexer :: "Error + 'a \<Rightarrow> Lexer \<Rightarrow> Error + ('a \<times> Lexer)" where
  "withLexer r l = (case r of Inl e \<Rightarrow> Inl e | Inr t \<Rightarrow> Inr (t, l))"

text \<open>The part of \<open>lexNumber\<close> after the prefix: the digits, the fraction and the
  exponent.\<close>

definition lexNumberDigits ::
  "int \<Rightarrow> int \<Rightarrow> string \<Rightarrow> Lexer \<Rightarrow> string \<Rightarrow> bool \<Rightarrow> bool \<Rightarrow> Error + (Token \<times> Lexer)" where
  "lexNumberDigits MININT MAXINT inp l v hexadecimal word =
    (let (ds, l1) = readNumeric inp hexadecimal (- 1) l [];
         v1 = v @ ds
     in
     if hexadecimal \<or> word
     then withLexer (makeNumberToken MININT MAXINT inp l1 v1 False word hexadecimal) l1
     else if getChar inp l1 0 = CHR ''.'' \<and> \<not> isNumber (getChar inp l1 1) False
     then withLexer (makeNumberToken MININT MAXINT inp l1 v1 False False False) l1
     else
       (let (v2, l2, real') =
              (if getChar inp l1 0 = CHR ''.''
               then (let (fs, l') = readNumeric inp False (- 1) (l1\<lparr>position := position l1 + 1\<rparr>) []
                     in (v1 @ ''.'' @ fs, l', True))
               else (v1, l1, False))
        in
        if getChar inp l2 0 = CHR ''e'' \<or> getChar inp l2 0 = CHR ''E'' then
          (if isNumber (getChar inp l2 1) False then
             (let (es, l3) = readNumeric inp False (- 1) (l2\<lparr>position := position l2 + 1\<rparr>) []
              in withLexer (makeNumberToken MININT MAXINT inp l3 (v2 @ ''e'' @ es) True False False) l3)
           else if getChar inp l2 1 = CHR ''~'' \<and> isNumber (getChar inp l2 2) False then
             (let (es, l3) = readNumeric inp False (- 1) (l2\<lparr>position := position l2 + 2\<rparr>) []
              in withLexer (makeNumberToken MININT MAXINT inp l3 (v2 @ ''e-'' @ es) True False False) l3)
           else withLexer (makeNumberToken MININT MAXINT inp l2 v2 real' False False) l2)
        else withLexer (makeNumberToken MININT MAXINT inp l2 v2 real' False False) l2))"

definition lexNumber :: "int \<Rightarrow> int \<Rightarrow> string \<Rightarrow> Lexer \<Rightarrow> Error + (Token \<times> Lexer)" where
  "lexNumber MININT MAXINT inp l0 =
    (let negative = (getChar inp l0 0 = CHR ''~'');
         l1 = (if negative then l0\<lparr>position := position l0 + 1\<rparr> else l0);
         v = (if negative then ''-'' else [])
     in
     if getChar inp l1 0 = CHR ''0'' \<and> (getChar inp l1 1 = CHR ''w'' \<or> getChar inp l1 1 = CHR ''x'')
     then
       (let l2 = l1\<lparr>position := position l1 + 1\<rparr>;
            word = (getChar inp l2 0 = CHR ''w'');
            hexadecimal = (getChar inp l2 (if word then 1 else 0) = CHR ''x'');
            nextDigitOffset = (if word \<and> hexadecimal then 2 else 1)
        in
        if (negative \<and> word) \<or> \<not> isNumber (getChar inp l2 nextDigitOffset) hexadecimal
        then withLexer (makeNumberToken MININT MAXINT inp l2 (v @ ''0'') False False False) l2
        else lexNumberDigits MININT MAXINT inp
               (l2\<lparr>position := position l2 + nextDigitOffset\<rparr>) v hexadecimal word)
     else lexNumberDigits MININT MAXINT inp l1 v False False)"

lemma consumeChar_Inr:
  "consumeChar inp l = Inr (c, l') \<Longrightarrow>
    position l < length inp \<and> position l' = position l + 1 \<and> tokenStart l' = tokenStart l
    \<and> c = inp ! position l"
  by (auto simp: consumeChar_def split: if_splits)

lemma readNumeric_position_eq:
  "(s, l') = readNumeric inp h m l r \<Longrightarrow> position l \<le> position l'"
  using readNumeric_position [of l inp h m r] by (metis snd_conv)

text \<open>The \<open>switch\<close> of \<open>lexString\<close> over the character \<open>c\<close> that follows a backslash;
  \<open>l\<close> is the lexer behind \<open>c\<close>.  It returns the value with the escaped character
  added.  The nine cases that add a fixed character are the table \<open>simpleEscapes\<close>.\<close>

definition simpleEscapes :: "(char \<times> nat) list" where
  "simpleEscapes =
    [(CHR ''a'', 7), (CHR ''b'', 8), (CHR ''t'', 9), (CHR ''n'', 10), (CHR ''v'', 11),
     (CHR ''f'', 12), (CHR ''r'', 13), (CHR 0x22, 34), (CHR 0x5C, 92)]"

definition lexEscape ::
  "LexerOptions \<Rightarrow> string \<Rightarrow> Lexer \<Rightarrow> char \<Rightarrow> nat list \<Rightarrow> Error + (nat list \<times> Lexer)" where
  "lexEscape options inp l c v =
    (case map_of simpleEscapes c of
       Some code \<Rightarrow> Inr (v @ [code], l)
     | None \<Rightarrow>
         if c = CHR ''^'' then
           (case consumeChar inp l of
              Inl e \<Rightarrow> Inl e
            | Inr (c2, l') \<Rightarrow>
                if of_char c2 < (64 :: nat) \<or> (95 :: nat) < of_char c2
                then Inl LexerError
                else Inr (v @ [of_char c2 - 64], l'))
         else if c = CHR ''u'' then
           (let (s, l') = readNumeric inp True 4 l [] in
            if length s \<noteq> 4 then Inl LexerError
            else if 256 \<le> parseInt s 16 \<and> \<not> allowUnicodeInStrings options
            then Inl LexerError
            else Inr (v @ [nat (parseInt s 16)], l'))
         else if \<not> isNumber c False then Inl LexerError
         else
           (let (s, l') = readNumeric inp False 3 (l\<lparr>position := position l - 1\<rparr>) [] in
            if length s \<noteq> 3 then Inl LexerError
            else if 256 \<le> parseInt s 10 \<and> \<not> allowUnicodeInStrings options
            then Inl LexerError
            else Inr (v @ [nat (parseInt s 10)], l')))"

lemma lexEscape_position:
  assumes "lexEscape options inp l c v = Inr (v', l')"
  shows "position l - 1 \<le> position l'"
proof (cases "map_of simpleEscapes c")
  case (Some a)
  with assms show ?thesis by (auto simp: lexEscape_def)
next
  case None
  show ?thesis
  proof (cases "c = CHR ''^''")
    case True
    with None assms show ?thesis
      by (auto simp: lexEscape_def split: sum.splits if_splits dest!: consumeChar_Inr)
  next
    case False
    note nc = this
    show ?thesis
    proof (cases "c = CHR ''u''")
      case True
      have b: "position l \<le> position (snd (readNumeric inp True 4 l []))"
        by (rule readNumeric_position)
      from None nc True assms b show ?thesis
        by (auto simp: lexEscape_def split: prod.splits if_splits)
    next
      case False
      have c: "position (l\<lparr>position := position l - 1\<rparr>)
        \<le> position (snd (readNumeric inp False 3 (l\<lparr>position := position l - 1\<rparr>) []))"
        by (rule readNumeric_position)
      from None nc False assms c show ?thesis
        by (auto simp: lexEscape_def split: prod.splits if_splits)
    qed
  qed
qed

text \<open>One round of the loop of \<open>lexString\<close>: an escape sequence or a plain
  character.  It returns the value read so far and the lexer behind the round.\<close>

definition lexStringStep ::
  "LexerOptions \<Rightarrow> string \<Rightarrow> Lexer \<Rightarrow> nat list \<Rightarrow> Error + (nat list \<times> Lexer)" where
  "lexStringStep options inp l v =
    (if getChar inp l 0 = CHR 0x5C then
       (let l1 = l\<lparr>position := position l + 1\<rparr> in
        if isWhitespace (getChar inp l1 0) then
          (case consumeChar inp (skipWhitespace inp l1) of
             Inl e \<Rightarrow> Inl e
           | Inr (c, l3) \<Rightarrow>
               if c \<noteq> CHR 0x5C then Inl LexerError else Inr (v, l3))
        else
          (case consumeChar inp l1 of
             Inl e \<Rightarrow> Inl e
           | Inr (c, l2) \<Rightarrow> lexEscape options inp l2 c v))
     else
       (case consumeChar inp l of
          Inl e \<Rightarrow> Inl e
        | Inr (ch, l1) \<Rightarrow>
            (let c = (of_char ch :: nat) in
             if (c < 33 \<or> 126 < c) \<and> c \<noteq> 32 \<and> c < 128 then Inl LexerError
             else Inr (v @ [c], l1))))"

lemma lexStringStep_position:
  assumes "lexStringStep options inp l v = Inr (v', l')"
  shows "position l < position l' \<and> position l < length inp"
proof -
  have "position (l\<lparr>position := position l + 1\<rparr>)
      \<le> position (skipWhitespace inp (l\<lparr>position := position l + 1\<rparr>))"
    by (rule skipWhitespace_position)
  with assms show ?thesis
    unfolding lexStringStep_def Let_def
    by (auto split: sum.splits if_splits prod.splits
        dest!: consumeChar_Inr lexEscape_position)
qed

text \<open>The loop of \<open>lexString\<close>, which runs until it looks at the closing quote.\<close>

function lexStringLoop ::
  "LexerOptions \<Rightarrow> string \<Rightarrow> Lexer \<Rightarrow> nat list \<Rightarrow> Error + (nat list \<times> Lexer)" where
  "lexStringLoop options inp l v =
    (if getChar inp l 0 \<noteq> CHR 0x22 then
       (case lexStringStep options inp l v of
          Inl e \<Rightarrow> Inl e
        | Inr (v', l') \<Rightarrow> lexStringLoop options inp l' v')
     else Inr (v, l))"
  by pat_completeness auto
termination
  by (relation "measure (\<lambda>(options, inp, l, v). length inp - position l)")
    (auto dest!: lexStringStep_position)

declare lexStringLoop.simps [simp del]

lemma lexStringLoop_position:
  "lexStringLoop options inp l v = Inr (v', l') \<Longrightarrow> position l \<le> position l'"
proof (induction options inp l v arbitrary: v' l' rule: lexStringLoop.induct)
  case (1 options inp l v)
  from "1.prems" "1.IH" show ?case
    unfolding lexStringLoop.simps [of options inp l v]
    by (fastforce split: sum.splits prod.splits if_splits dest!: lexStringStep_position)
qed

definition lexString :: "LexerOptions \<Rightarrow> string \<Rightarrow> Lexer \<Rightarrow> Error + (Token \<times> Lexer)" where
  "lexString options inp l =
    (let startnumber = position l in
     case consumeChar inp l of
       Inl e \<Rightarrow> Inl e
     | Inr (c, l1) \<Rightarrow>
         if c \<noteq> CHR 0x22 then Inl InternalInterpreterError
         else
           (case lexStringLoop options inp l1 [] of
              Inl e \<Rightarrow> Inl e
            | Inr (v, l2) \<Rightarrow>
                (case consumeChar inp l2 of
                   Inl e \<Rightarrow> Inl e
                 | Inr (c', l3) \<Rightarrow>
                     if c' \<noteq> CHR 0x22 then Inl InternalInterpreterError
                     else Inr (StringConstantToken (substring inp startnumber (position l3)) v, l3))))"

definition lexCharacter :: "LexerOptions \<Rightarrow> string \<Rightarrow> Lexer \<Rightarrow> Error + (Token \<times> Lexer)" where
  "lexCharacter options inp l =
    (case consumeChar inp l of
       Inl e \<Rightarrow> Inl e
     | Inr (c, l1) \<Rightarrow>
         if c \<noteq> CHR ''#'' then Inl InternalInterpreterError
         else
           (case lexString options inp l1 of
              Inl e \<Rightarrow> Inl e
            | Inr (t, l2) \<Rightarrow>
                (case t of
                   StringConstantToken txt v \<Rightarrow>
                     if length v \<noteq> 1 then Inl LexerError
                     else Inr (CharacterConstantToken (''#'' @ txt) v, l2)
                 | _ \<Rightarrow> Inl InternalInterpreterError)))"

text \<open>The \<open>do ... while\<close> loop of \<open>lexIdentifierOrKeyword\<close>: it consumes one
  character and goes on while the next one passes \<open>charChecker\<close>.\<close>

function readIdentifier ::
  "(char \<Rightarrow> bool) \<Rightarrow> string \<Rightarrow> Lexer \<Rightarrow> string \<Rightarrow> Error + (string \<times> Lexer)" where
  "readIdentifier charChecker inp l token =
    (case consumeChar inp l of
       Inl e \<Rightarrow> Inl e
     | Inr (c, l') \<Rightarrow>
         if charChecker (getChar inp l' 0)
         then readIdentifier charChecker inp l' (token @ [c])
         else Inr (token @ [c], l'))"
  by pat_completeness auto
termination
  by (relation "measure (\<lambda>(f, inp, l, t). length inp - position l)")
    (auto dest!: consumeChar_Inr)

declare readIdentifier.simps [simp del]

text \<open>The last statement of \<open>lexIdentifierOrKeyword\<close>: the token for the characters
  read.  \<open>token.charAt(1)\<close> is the empty string when the token has one character.\<close>

definition identifierToken :: "char \<Rightarrow> string \<Rightarrow> Error + Token" where
  "identifierToken firstChar token =
    (if token = ''*'' then Inr StarToken
     else if token = ''='' then Inr EqualsToken
     else if token \<in> set reservedWords then Inr (KeywordToken token)
     else if firstChar = CHR 0x27 then
       (if 1 < length token \<and> token ! 1 = CHR 0x27 then
          (if length token = 2 then Inl LexerError
           else Inr (EqualityTypeVariableToken token))
        else
          (if 2 \<le> length token then Inr (TypeVariableToken token)
           else Inl LexerError))
     else if isAlphanumeric firstChar then Inr (AlphanumericIdentifierToken token)
     else Inr (IdentifierToken token))"

definition lexIdentifierOrKeyword :: "string \<Rightarrow> Lexer \<Rightarrow> Error + (Token \<times> Lexer)" where
  "lexIdentifierOrKeyword inp l =
    (let firstChar = getChar inp l 0 in
     if isSymbolic firstChar \<or>
        (isAlphanumeric firstChar \<and> \<not> isNumber firstChar False \<and> firstChar \<noteq> CHR ''_'')
     then
       (case readIdentifier (if isSymbolic firstChar then isSymbolic else isAlphanumeric) inp l [] of
          Inl e \<Rightarrow> Inl e
        | Inr (token, l') \<Rightarrow> withLexer (identifierToken firstChar token) l')
     else if [firstChar] \<in> set reservedWords then
       (case consumeChar inp l of
          Inl e \<Rightarrow> Inl e
        | Inr (c, l') \<Rightarrow> Inr (KeywordToken [c], l'))
     else if firstChar = CHR ''.'' \<and> getChar inp l 1 = CHR ''.'' \<and> getChar inp l 2 = CHR ''.''
     then Inr (KeywordToken ''...'', l\<lparr>position := position l + 3\<rparr>)
     else Inl LexerError)"

text \<open>
  Modelled from the spec: which token classes are subclasses of which (tokens.ts is not
  among the sources).  \<open>AlphanumericIdentifierToken\<close> and \<open>LongIdentifierToken\<close> are
  identifier tokens; the type variable tokens are not alphanumeric identifier tokens.
\<close>

fun instanceofAlphanumericIdentifierToken :: "Token \<Rightarrow> bool" where
  "instanceofAlphanumericIdentifierToken (AlphanumericIdentifierToken t) = True"
| "instanceofAlphanumericIdentifierToken _ = False"

fun instanceofIdentifierToken :: "Token \<Rightarrow> bool" where
  "instanceofIdentifierToken (IdentifierToken t) = True"
| "instanceofIdentifierToken (AlphanumericIdentifierToken t) = True"
| "instanceofIdentifierToken (LongIdentifierToken t qs f) = True"
| "instanceofIdentifierToken _ = False"

fun instanceofTypeVariableToken :: "Token \<Rightarrow> bool" where
  "instanceofTypeVariableToken (TypeVariableToken t) = True"
| "instanceofTypeVariableToken (EqualityTypeVariableToken t) = True"
| "instanceofTypeVariableToken _ = False"

lemma readIdentifier_position:
  "readIdentifier f inp l t = Inr (t', l') \<Longrightarrow> position l < position l'"
proof (induction f inp l t arbitrary: t' l' rule: readIdentifier.induct)
  case (1 f inp l t)
  from "1.prems" "1.IH" show ?case
    unfolding readIdentifier.simps [of f inp l t]
    by (fastforce split: sum.splits prod.splits if_splits dest!: consumeChar_Inr)
qed

lemma lexIdentifierOrKeyword_position:
  "lexIdentifierOrKeyword inp l = Inr (t, l') \<Longrightarrow> position l < position l'"
  unfolding lexIdentifierOrKeyword_def Let_def withLexer_def
  by (auto split: if_splits sum.splits prod.splits
      dest!: consumeChar_Inr readIdentifier_position)

text \<open>The \<open>do ... while\<close> loop of \<open>lexLongIdentifierOrKeyword\<close>, entered at a dot.\<close>

function longIdentifierLoop ::
  "string \<Rightarrow> Lexer \<Rightarrow> Token \<Rightarrow> Token list \<Rightarrow> Error + (Token list \<times> Token \<times> Lexer)" where
  "longIdentifierLoop inp l t qualifiers =
    (case consumeChar inp l of
       Inl e \<Rightarrow> Inl e
     | Inr (c, l1) \<Rightarrow>
         if \<not> instanceofAlphanumericIdentifierToken t then Inl LexerError
         else
           (case lexIdentifierOrKeyword inp (l1\<lparr>tokenStart := position l1\<rparr>) of
              Inl e \<Rightarrow> Inl e
            | Inr (t', l3) \<Rightarrow>
                if getChar inp l3 0 = CHR ''.''
                then longIdentifierLoop inp l3 t' (qualifiers @ [t])
                else Inr (qualifiers @ [t], t', l3)))"
  by pat_completeness auto
termination
  by (relation "measure (\<lambda>(inp, l, t, qs). length inp - position l)")
    (auto dest!: consumeChar_Inr lexIdentifierOrKeyword_position)

declare longIdentifierLoop.simps [simp del]

definition lexLongIdentifierOrKeyword :: "string \<Rightarrow> Lexer \<Rightarrow> Error + (Token \<times> Lexer)" where
  "lexLongIdentifierOrKeyword inp l =
    (case lexIdentifierOrKeyword inp l of
       Inl e \<Rightarrow> Inl e
     | Inr (t, l1) \<Rightarrow>
         if getChar inp l1 0 = CHR ''.'' \<and> getChar inp l1 1 = CHR ''.''
            \<and> getChar inp l1 2 = CHR ''.''
         then Inr (t, l1)
         else if getChar inp l1 0 \<noteq> CHR ''.'' then Inr (t, l1)
         else
           (case longIdentifierLoop inp l1 t [] of
              Inl e \<Rightarrow> Inl e
            | Inr (qualifiers, t', l2) \<Rightarrow>
                if \<not> (instanceofIdentifierToken t' \<or> t' = StarToken)
                   \<or> instanceofTypeVariableToken t'
                then Inl LexerError
                else Inr (LongIdentifierToken (substring inp (tokenStart l) (position l2))
                            qualifiers t', l2)))"

definition nextToken ::
  "int \<Rightarrow> int \<Rightarrow> LexerOptions \<Rightarrow> string \<Rightarrow> Lexer \<Rightarrow> Error + (Token \<times> Lexer)" where
  "nextToken MININT MAXINT options inp l0 =
    (let l = l0\<lparr>tokenStart := position l0\<rparr> in
     case (if isNumber (getChar inp l 0) False
              \<or> (getChar inp l 0 = CHR ''~'' \<and> isNumber (getChar inp l 1) False)
           then lexNumber MININT MAXINT inp l
           else if getChar inp l 0 = CHR 0x22 then lexString options inp l
           else if getChar inp l 0 = CHR ''#'' \<and> getChar inp l 1 = CHR 0x22
           then lexCharacter options inp l
           else lexLongIdentifierOrKeyword inp l) of
       Inl e \<Rightarrow> Inl e
     | Inr (token, l') \<Rightarrow>
         (case skipWhitespaceAndComments inp l' of
            Inl e \<Rightarrow> Inl e
          | Inr l'' \<Rightarrow> Inr (token, l'')))"

definition finished :: "string \<Rightarrow> Lexer \<Rightarrow> bool" where
  "finished inp l = (length inp \<le> position l)"

lemma skipLoop_position: "skipLoop inp l = Inr l' \<Longrightarrow> position l \<le> position l'"
proof (induction inp l arbitrary: l' rule: skipLoop.induct)
  case (1 inp l)
  have a: "position l \<le> position (skipWhitespace inp l)"
    by (rule skipWhitespace_position)
  from "1.prems" "1.IH" a show ?case
    unfolding skipLoop.simps [of inp l]
    by (fastforce split: sum.splits if_splits dest!: skipComments_position)
qed

lemma skipWhitespaceAndComments_position:
  "skipWhitespaceAndComments inp l = Inr l' \<Longrightarrow> position l \<le> position l'"
  by (auto simp: skipWhitespaceAndComments_def split: sum.splits dest!: skipLoop_position)

lemma lexString_position:
  "lexString options inp l = Inr (t, l') \<Longrightarrow> position l < position l'"
  unfolding lexString_def Let_def
  by (fastforce split: sum.splits prod.splits if_splits
      dest!: consumeChar_Inr lexStringLoop_position)

lemma lexCharacter_position:
  "lexCharacter options inp l = Inr (t, l') \<Longrightarrow> position l < position l'"
  unfolding lexCharacter_def
  by (fastforce split: sum.splits prod.splits if_splits Token.splits
      dest!: consumeChar_Inr lexString_position)

lemma longIdentifierLoop_position:
  "longIdentifierLoop inp l t qs = Inr (qs', t', l') \<Longrightarrow> position l < position l'"
proof (induction inp l t qs arbitrary: qs' t' l' rule: longIdentifierLoop.induct)
  case (1 inp l t qs)
  from "1.prems" "1.IH" show ?case
    unfolding longIdentifierLoop.simps [of inp l t qs]
    by (fastforce split: sum.splits prod.splits if_splits
        dest!: consumeChar_Inr lexIdentifierOrKeyword_position)
qed

lemma lexLongIdentifierOrKeyword_position:
  "lexLongIdentifierOrKeyword inp l = Inr (t, l') \<Longrightarrow> position l < position l'"
  unfolding lexLongIdentifierOrKeyword_def
  by (fastforce split: sum.splits prod.splits if_splits
      dest!: lexIdentifierOrKeyword_position longIdentifierLoop_position)

lemma withLexer_Inr: "withLexer r l = Inr (t, l') \<Longrightarrow> l' = l"
  by (auto simp: withLexer_def split: sum.splits)

lemma readNumeric_snd:
  "readNumeric inp h m l r = (s, l') \<Longrightarrow> position l \<le> position l'"
  using readNumeric_position [of l inp h m r] by simp

lemma lexNumberDigits_position:
  "lexNumberDigits MININT MAXINT inp l v h w = Inr (t, l') \<Longrightarrow> position l \<le> position l'"
  unfolding lexNumberDigits_def Let_def
  by (auto split: prod.splits if_splits dest!: withLexer_Inr readNumeric_snd)

lemma readNumeric_first:
  "isNumber (getChar inp l 0) h \<Longrightarrow> position l < position (snd (readNumeric inp h (- 1) l []))"
  using readNumeric_position [of "l\<lparr>position := position l + 1\<rparr>" inp h "- 1" "[getChar inp l 0]"]
  unfolding readNumeric.simps [of inp h "- 1" l "[]"]
  by simp

lemma lexNumberDigits_progress:
  assumes "isNumber (getChar inp l 0) h"
    and "lexNumberDigits MININT MAXINT inp l v h w = Inr (t, l')"
  shows "position l < position l'"
proof -
  obtain ds l1 where r: "readNumeric inp h (- 1) l [] = (ds, l1)"
    by (cases "readNumeric inp h (- 1) l []")
  with readNumeric_first [OF assms(1)] have "position l < position l1" by simp
  moreover from assms(2) r have "position l1 \<le> position l'"
    unfolding lexNumberDigits_def Let_def
    by (auto split: prod.splits if_splits dest!: withLexer_Inr readNumeric_snd)
  ultimately show ?thesis by simp
qed

lemma lexNumber_progress:
  assumes "isNumber (getChar inp l 0) False
      \<or> (getChar inp l 0 = CHR ''~'' \<and> isNumber (getChar inp l 1) False)"
    and "lexNumber MININT MAXINT inp l = Inr (t, l')"
  shows "position l < position l'"
proof (cases "getChar inp l 0 = CHR ''~''")
  case True
  with assms(2) show ?thesis
    unfolding lexNumber_def Let_def
    by (auto split: if_splits dest!: withLexer_Inr lexNumberDigits_position)
next
  case False
  with assms(1) have d: "isNumber (getChar inp l 0) False" by simp
  show ?thesis
  proof (cases "getChar inp l 0 = CHR ''0''
      \<and> (getChar inp l 1 = CHR ''w'' \<or> getChar inp l 1 = CHR ''x'')")
    case True
    with False assms(2) show ?thesis
      unfolding lexNumber_def Let_def
      by (auto split: if_splits dest!: withLexer_Inr lexNumberDigits_position)
  next
    case nz: False
    with False assms(2) have "lexNumberDigits MININT MAXINT inp l [] False False = Inr (t, l')"
      unfolding lexNumber_def Let_def by (auto split: if_splits)
    with d show ?thesis by (rule lexNumberDigits_progress)
  qed
qed

lemma nextToken_progress:
  assumes "nextToken MININT MAXINT options inp l = Inr (t, l')"
  shows "position l < position l'"
proof -
  let ?l = "l\<lparr>tokenStart := position l\<rparr>"
  from assms obtain l1 where
    tok: "(if isNumber (getChar inp ?l 0) False
              \<or> (getChar inp ?l 0 = CHR ''~'' \<and> isNumber (getChar inp ?l 1) False)
           then lexNumber MININT MAXINT inp ?l
           else if getChar inp ?l 0 = CHR 0x22 then lexString options inp ?l
           else if getChar inp ?l 0 = CHR ''#'' \<and> getChar inp ?l 1 = CHR 0x22
           then lexCharacter options inp ?l
           else lexLongIdentifierOrKeyword inp ?l) = Inr (t, l1)"
    and skip: "skipWhitespaceAndComments inp l1 = Inr l'"
    unfolding nextToken_def Let_def
    by (auto split: sum.splits prod.splits)
  have "position ?l < position l1"
  proof (cases "isNumber (getChar inp ?l 0) False
              \<or> (getChar inp ?l 0 = CHR ''~'' \<and> isNumber (getChar inp ?l 1) False)")
    case True
    with tok have "lexNumber MININT MAXINT inp ?l = Inr (t, l1)" by simp
    with True show ?thesis by (rule lexNumber_progress)
  next
    case False
    with tok show ?thesis
      by (auto split: if_splits
          dest: lexString_position lexCharacter_position lexLongIdentifierOrKeyword_position)
  qed
  with skipWhitespaceAndComments_position [OF skip] show ?thesis by simp
qed

text \<open>The loop of \<open>lex\<close> and \<open>lex\<close> itself; creating the lexer skips the whitespace
  and the comments at the start of the input.\<close>

function lexLoop ::
  "int \<Rightarrow> int \<Rightarrow> LexerOptions \<Rightarrow> string \<Rightarrow> Lexer \<Rightarrow> Token list \<Rightarrow> Error + Token list" where
  "lexLoop MININT MAXINT options inp l result =
    (if \<not> finished inp l then
       (case nextToken MININT MAXINT options inp l of
          Inl e \<Rightarrow> Inl e
        | Inr (t, l') \<Rightarrow> lexLoop MININT MAXINT options inp l' (result @ [t]))
     else Inr result)"
  by pat_completeness auto
termination
  by (relation "measure (\<lambda>(lo, hi, options, inp, l, r). length inp - position l)")
    (auto simp: finished_def dest!: nextToken_progress)

declare lexLoop.simps [simp del]

definition lex :: "int \<Rightarrow> int \<Rightarrow> string \<Rightarrow> LexerOptions \<Rightarrow> Error + Token list" where
  "lex MININT MAXINT s options =
    (case skipWhitespaceAndComments s \<lparr>position = 0, tokenStart = 0\<rparr> of
       Inl e \<Rightarrow> Inl e
     | Inr l \<Rightarrow> lexLoop MININT MAXINT options s l [])"

subsection \<open>Numeric constants\<close>

text \<open>
  The integer and word constants of the language, to state what the lexer does with
  them: an optional \<open>~\<close>, the prefix of the form, and digits \<open>ds\<close> of the form's radix.
  A word constant has no sign.  \<open>endsConstant form ds rest\<close> says that the text \<open>rest\<close>
  behind the digits does not continue the constant: it starts with no further digit,
  and behind a decimal constant it starts neither a fraction nor an exponent, nor does
  it turn a single \<open>0\<close> into the prefix of another form.
\<close>

datatype NumberForm = Decimal | Hexadecimal | DecimalWord | HexadecimalWord

fun formPrefix :: "NumberForm \<Rightarrow> string" where
  "formPrefix Decimal = []"
| "formPrefix Hexadecimal = ''0x''"
| "formPrefix DecimalWord = ''0w''"
| "formPrefix HexadecimalWord = ''0wx''"

fun isHexadecimal :: "NumberForm \<Rightarrow> bool" where
  "isHexadecimal Decimal = False"
| "isHexadecimal Hexadecimal = True"
| "isHexadecimal DecimalWord = False"
| "isHexadecimal HexadecimalWord = True"

fun isWord :: "NumberForm \<Rightarrow> bool" where
  "isWord Decimal = False"
| "isWord Hexadecimal = False"
| "isWord DecimalWord = True"
| "isWord HexadecimalWord = True"

definition numericConstant :: "bool \<Rightarrow> NumberForm \<Rightarrow> string \<Rightarrow> string" where
  "numericConstant negative form ds = (if negative then ''~'' else []) @ formPrefix form @ ds"

definition constantValue :: "bool \<Rightarrow> NumberForm \<Rightarrow> string \<Rightarrow> int" where
  "constantValue negative form ds =
    (if negative then - parseDigits (if isHexadecimal form then 16 else 10) ds
     else parseDigits (if isHexadecimal form then 16 else 10) ds)"

definition continuesAsReal :: "string \<Rightarrow> bool" where
  "continuesAsReal rest =
    (case rest of
       c # d # tail \<Rightarrow>
         (c = CHR ''.'' \<and> isNumber d False)
         \<or> ((c = CHR ''e'' \<or> c = CHR ''E'')
             \<and> (isNumber d False
                 \<or> (d = CHR ''~'' \<and> (case tail of [] \<Rightarrow> False | f # _ \<Rightarrow> isNumber f False))))
     | _ \<Rightarrow> False)"

definition endsConstant :: "NumberForm \<Rightarrow> string \<Rightarrow> string \<Rightarrow> bool" where
  "endsConstant form ds rest =
    ((case rest of [] \<Rightarrow> True | c # _ \<Rightarrow> \<not> isNumber c (isHexadecimal form))
     \<and> (form \<noteq> Decimal
        \<or> (\<not> continuesAsReal rest
            \<and> (ds \<noteq> ''0'' \<or> (case rest of [] \<Rightarrow> True | c # _ \<Rightarrow> c \<noteq> CHR ''w'' \<and> c \<noteq> CHR ''x'')))))"

section \<open>Properties\<close>

subsection \<open>Equality of constructed values\<close>

text \<open>
  C10.  The claim: equality of constructed values and of exception values is symmetric,
  and holds exactly when names and ids agree and the arguments are both absent or both
  present and equal.  The code answers true when \<open>this\<close> has an argument and the other
  value has none: \<open>C 1\<close> equals \<open>C\<close>, while \<open>C\<close> does not equal \<open>C 1\<close>.  The same
  holds for exception values.
\<close>

theorem equals_constructed_asymmetric:
  "equals (ConstructedValue ''C'' (Some (Integer 1)) 0) (ConstructedValue ''C'' None 0) = Inr True
   \<and> equals (ConstructedValue ''C'' None 0) (ConstructedValue ''C'' (Some (Integer 1)) 0) = Inr False
   \<and> equals (ExceptionValue ''E'' (Some (Integer 1)) 0) (ExceptionValue ''E'' None 0) = Inr True
   \<and> equals (ExceptionValue ''E'' None 0) (ExceptionValue ''E'' (Some (Integer 1)) 0) = Inr False"
  by simp

subsection \<open>Overflow and division by zero\<close>

text \<open>
  C2.  On \<open>Integer\<close> operands the operators \<open>+\<close>, \<open>-\<close>, \<open>*\<close>, \<open>div\<close> and \<open>mod\<close> raise
  \<open>Overflow\<close> whenever the result lies outside \<open>[MININT, MAXINT]\<close>, and \<open>div\<close> and \<open>mod\<close>
  raise \<open>Div\<close> when the divisor is zero.  The result of \<open>div\<close> is the quotient rounded
  down; the result of \<open>mod\<close> is the remainder that \<open>Integer.modulo\<close> computes, which has
  the sign of the dividend.  The methods of class \<open>Integer\<close> check nothing themselves:
  the theorem is about the operators as the spec describes them.
\<close>

theorem integer_operators_raise:
  "(outside MININT MAXINT (a + b) \<longrightarrow>
      op_plus MININT MAXINT a b = (ExceptionValue ''Overflow'' None 0, True))
   \<and> (outside MININT MAXINT (a - b) \<longrightarrow>
      op_minus MININT MAXINT a b = (ExceptionValue ''Overflow'' None 0, True))
   \<and> (outside MININT MAXINT (a * b) \<longrightarrow>
      op_times MININT MAXINT a b = (ExceptionValue ''Overflow'' None 0, True))
   \<and> (b \<noteq> 0 \<and> outside MININT MAXINT (a div b) \<longrightarrow>
      op_div MININT MAXINT a b = (ExceptionValue ''Overflow'' None 0, True))
   \<and> (b \<noteq> 0 \<and> outside MININT MAXINT (sgn a * (\<bar>a\<bar> mod \<bar>b\<bar>)) \<longrightarrow>
      op_mod MININT MAXINT a b = (ExceptionValue ''Overflow'' None 0, True))
   \<and> op_div MININT MAXINT a 0 = (ExceptionValue ''Div'' None 0, True)
   \<and> op_mod MININT MAXINT a 0 = (ExceptionValue ''Div'' None 0, True)"
  by (simp add: op_plus_def op_minus_def op_times_def op_div_def op_mod_def
      detectOverflow_def raiseException_def outside_def Integer_add_def Integer_negate_def
      Integer_multiply_def Integer_divide_def Integer_modulo_def)

theorem integer_operators_raise_witness:
  "op_plus (- 1073741824) 1073741823 1073741823 1 = (ExceptionValue ''Overflow'' None 0, True)
   \<and> op_minus (- 1073741824) 1073741823 (- 1073741824) 1 = (ExceptionValue ''Overflow'' None 0, True)
   \<and> op_times (- 1073741824) 1073741823 100000 100000 = (ExceptionValue ''Overflow'' None 0, True)
   \<and> op_div (- 1073741824) 1073741823 (- 1073741824) (- 1) = (ExceptionValue ''Overflow'' None 0, True)
   \<and> op_mod (- 2) 2 8 5 = (ExceptionValue ''Overflow'' None 0, True)
   \<and> op_div (- 1073741824) 1073741823 7 0 = (ExceptionValue ''Div'' None 0, True)
   \<and> op_mod (- 1073741824) 1073741823 7 0 = (ExceptionValue ''Div'' None 0, True)"
  using integer_operators_raise [of "- 1073741824" 1073741823 1073741823 1]
    integer_operators_raise [of "- 1073741824" 1073741823 "- 1073741824" 1]
    integer_operators_raise [of "- 1073741824" 1073741823 100000 100000]
    integer_operators_raise [of "- 1073741824" 1073741823 "- 1073741824" "- 1"]
    integer_operators_raise [of "- 2" 2 8 5]
    integer_operators_raise [of "- 1073741824" 1073741823 7 0]
  by (simp add: outside_def)

subsection \<open>Facts about the lexer on a known input\<close>

lemmas lexer_simps =
  lex_def skipWhitespaceAndComments_def skipLoop.simps skipWhitespace.simps
  skipComments.simps skipCommentBody.simps lexLoop.simps nextToken_def lexNumber_def
  lexNumberDigits_def makeNumberToken_def withLexer_def getChar_def consumeChar_def
  isNumber_def isWhitespace_def isAlphanumeric_def isSymbolic_def symbolicCharacters_def
  substr_def substring_def finished_def parseInt_def parseDigits_def digitValue_def
  lexLongIdentifierOrKeyword_def lexIdentifierOrKeyword_def readIdentifier.simps
  identifierToken_def reservedWords_def readNumeric.simps Let_def

lemma getChar_drop:
  "getChar inp l k =
    (if k < length (drop (position l) inp) then drop (position l) inp ! k else CHR 0x04)"
  by (auto simp: getChar_def)

lemma consumeChar_drop:
  "drop (position l) inp = c # cs \<Longrightarrow>
    consumeChar inp l = Inr (c, l\<lparr>position := position l + 1\<rparr>)
    \<and> drop (position l + 1) inp = cs"
proof -
  assume a: "drop (position l) inp = c # cs"
  then have "position l < length inp"
    by (metis drop_all list.distinct(1) not_le)
  moreover from a have "inp ! position l = c"
    by (metis calculation hd_drop_conv_nth list.sel(1))
  moreover from a have "drop (position l + 1) inp = cs"
    by (metis Suc_eq_plus1 drop_Suc drop_drop list.sel(3) tl_drop add.commute)
  ultimately show ?thesis by (simp add: consumeChar_def)
qed

lemma readIdentifier_run:
  assumes "drop (position l) inp = tok @ rest" "tok \<noteq> []" "\<forall>c \<in> set (tl tok). f c"
    and "rest = [] \<or> \<not> f (hd rest)" "\<not> f (CHR 0x04)"
  shows "readIdentifier f inp l acc
    = Inr (acc @ tok, l\<lparr>position := position l + length tok\<rparr>)"
  using assms
proof (induction tok arbitrary: l acc)
  case Nil
  then show ?case by simp
next
  case (Cons c cs)
  let ?l = "l\<lparr>position := position l + 1\<rparr>"
  from Cons.prems(1) have cc: "consumeChar inp l = Inr (c, ?l)"
    and dr: "drop (position ?l) inp = cs @ rest"
    using consumeChar_drop [of l inp c "cs @ rest"] by auto
  show ?case
  proof (cases cs)
    case Nil
    with dr Cons.prems(4,5) have "\<not> f (getChar inp ?l 0)"
      by (cases rest) (auto simp: getChar_drop)
    with cc Nil show ?thesis
      by (simp add: readIdentifier.simps [of f inp l acc])
  next
    case (Cons d ds)
    with dr Cons.prems(3) have "f (getChar inp ?l 0)"
      by (auto simp: getChar_drop)
    moreover have "readIdentifier f inp ?l (acc @ [c])
        = Inr ((acc @ [c]) @ cs, ?l\<lparr>position := position ?l + length cs\<rparr>)"
      using Cons.IH [of ?l "acc @ [c]"] dr Cons Cons.prems by auto
    ultimately show ?thesis using cc
      by (simp add: readIdentifier.simps [of f inp l acc])
  qed
qed

lemma prime_not_reserved: "hd tok = CHR 0x27 \<Longrightarrow> tok \<notin> set reservedWords"
  by (auto simp: reservedWords_def)

subsection \<open>A prefix of a number that is no prefix\<close>

text \<open>
  C7.  The input \<open>0w\<close> lexes as the integer constant \<open>0\<close> and the identifier \<open>w\<close>, and
  \<open>~0x\<close> as the integer constant \<open>~0\<close> and the identifier \<open>x\<close>.  The bounds must admit
  the number 0, and the value of \<open>~0\<close> is 0 (JavaScript's negative zero).
\<close>

theorem lex_0w_and_tilde_0x:
  assumes "MININT \<le> 0" "0 \<le> MAXINT"
  shows "lex MININT MAXINT ''0w'' options
      = Inr [IntegerConstantToken ''0'' 0, AlphanumericIdentifierToken ''w'']
    \<and> lex MININT MAXINT ''~0x'' options
      = Inr [IntegerConstantToken ''~0'' 0, AlphanumericIdentifierToken ''x'']"
  using assms by (simp add: lexer_simps)

theorem lex_0w_and_tilde_0x_witness:
  "lex (- 1073741824) 1073741823 ''0w'' \<lparr>allowUnicodeInStrings = False\<rparr>
      = Inr [IntegerConstantToken ''0'' 0, AlphanumericIdentifierToken ''w'']
    \<and> lex (- 1073741824) 1073741823 ''~0x'' \<lparr>allowUnicodeInStrings = False\<rparr>
      = Inr [IntegerConstantToken ''~0'' 0, AlphanumericIdentifierToken ''x'']"
  using lex_0w_and_tilde_0x [of "- 1073741824" 1073741823 "\<lparr>allowUnicodeInStrings = False\<rparr>"]
  by simp

subsection \<open>Type variables\<close>

text \<open>
  C8.  The claim: a token whose first two characters are primes is an equality type
  variable, and a token that begins with one prime is a type variable exactly when it
  has at least two characters.  The code refuses the token that consists of two primes
  only (the first theorem below).  As amended: for a token \<open>tok\<close> of alphanumeric
  characters that begins with a prime and ends where the alphanumeric characters end,
  \<open>lexIdentifierOrKeyword\<close> returns an equality type variable when the second character
  is a prime and the token has at least three characters, fails with a \<open>LexerError\<close>
  when the token is exactly two primes, returns a type variable when the second
  character is no prime, and fails with a \<open>LexerError\<close> when the token is a lone prime.
\<close>

theorem two_primes_are_no_equality_type_variable:
  "lex (- 1073741824) 1073741823 [CHR 0x27, CHR 0x27] \<lparr>allowUnicodeInStrings = False\<rparr>
     = Inl LexerError"
  by code_simp

theorem type_variable_tokens:
  assumes "drop (position l) inp = tok @ rest" "tok \<noteq> []" "hd tok = CHR 0x27"
    and "\<forall>c \<in> set tok. isAlphanumeric c" "rest = [] \<or> \<not> isAlphanumeric (hd rest)"
  shows "lexIdentifierOrKeyword inp l =
    (if 2 \<le> length tok \<and> tok ! 1 = CHR 0x27 then
       (if length tok = 2 then Inl LexerError
        else Inr (EqualityTypeVariableToken tok, l\<lparr>position := position l + length tok\<rparr>))
     else if 2 \<le> length tok
       then Inr (TypeVariableToken tok, l\<lparr>position := position l + length tok\<rparr>)
     else Inl LexerError)"
proof -
  from assms(1,2,3) have fc: "getChar inp l 0 = CHR 0x27"
    by (cases tok) (auto simp: getChar_drop)
  have sym: "\<not> isSymbolic (CHR 0x27)"
    by (simp add: isSymbolic_def symbolicCharacters_def)
  have al: "isAlphanumeric (CHR 0x27)" "\<not> isNumber (CHR 0x27) False"
    "\<not> isAlphanumeric (CHR 0x04)"
    by (simp_all add: isAlphanumeric_def isNumber_def)
  from assms(4) have tl: "\<forall>c \<in> set (tl tok). isAlphanumeric c"
    by (metis assms(2) list.set_sel(2))
  have rd: "readIdentifier isAlphanumeric inp l []
      = Inr ([] @ tok, l\<lparr>position := position l + length tok\<rparr>)"
    by (rule readIdentifier_run [OF assms(1,2) tl assms(5) al(3)])
  from assms(2,3) have ne: "tok \<noteq> ''*''" "tok \<noteq> ''=''" by auto
  from fc sym al rd ne prime_not_reserved [OF assms(3)] show ?thesis
    by (auto simp: lexIdentifierOrKeyword_def Let_def withLexer_def identifierToken_def)
qed

theorem type_variable_tokens_witness:
  "lexIdentifierOrKeyword [CHR 0x27, CHR ''a''] \<lparr>position = 0, tokenStart = 0\<rparr>
     = Inr (TypeVariableToken [CHR 0x27, CHR ''a''], \<lparr>position = 2, tokenStart = 0\<rparr>)
   \<and> lexIdentifierOrKeyword [CHR 0x27, CHR 0x27, CHR ''a''] \<lparr>position = 0, tokenStart = 0\<rparr>
     = Inr (EqualityTypeVariableToken [CHR 0x27, CHR 0x27, CHR ''a''],
         \<lparr>position = 3, tokenStart = 0\<rparr>)
   \<and> lexIdentifierOrKeyword [CHR 0x27, CHR 0x27] \<lparr>position = 0, tokenStart = 0\<rparr>
     = Inl LexerError
   \<and> lexIdentifierOrKeyword [CHR 0x27] \<lparr>position = 0, tokenStart = 0\<rparr> = Inl LexerError"
  using
    type_variable_tokens [of "\<lparr>position = 0, tokenStart = 0\<rparr>" "[CHR 0x27, CHR ''a'']"
      "[CHR 0x27, CHR ''a'']" "[]"]
    type_variable_tokens [of "\<lparr>position = 0, tokenStart = 0\<rparr>" "[CHR 0x27, CHR 0x27, CHR ''a'']"
      "[CHR 0x27, CHR 0x27, CHR ''a'']" "[]"]
    type_variable_tokens [of "\<lparr>position = 0, tokenStart = 0\<rparr>" "[CHR 0x27, CHR 0x27]"
      "[CHR 0x27, CHR 0x27]" "[]"]
    type_variable_tokens [of "\<lparr>position = 0, tokenStart = 0\<rparr>" "[CHR 0x27]" "[CHR 0x27]" "[]"]
  by (simp add: isAlphanumeric_def)

subsection \<open>Numeric constants beyond the bounds\<close>

lemma readNumeric_run:
  assumes "drop (position l) inp = ds @ rest" "\<forall>c \<in> set ds. isNumber c h"
    and "case rest of [] \<Rightarrow> True | c # _ \<Rightarrow> \<not> isNumber c h"
  shows "readNumeric inp h (- 1) l acc = (acc @ ds, l\<lparr>position := position l + length ds\<rparr>)"
  using assms
proof (induction ds arbitrary: l acc)
  case Nil
  then have "\<not> isNumber (getChar inp l 0) h"
    by (cases rest) (auto simp: getChar_drop isNumber_def)
  then show ?case by (simp add: readNumeric.simps [of inp h "- 1" l acc])
next
  case (Cons d ds)
  let ?l = "l\<lparr>position := position l + 1\<rparr>"
  from Cons.prems(1) have dr: "drop (position ?l) inp = ds @ rest"
    using consumeChar_drop [of l inp d "ds @ rest"] by auto
  from Cons.prems(1,2) have g: "getChar inp l 0 = d" "isNumber d h"
    by (auto simp: getChar_drop)
  have "readNumeric inp h (- 1) ?l (acc @ [d])
      = ((acc @ [d]) @ ds, ?l\<lparr>position := position ?l + length ds\<rparr>)"
    using Cons.IH [of ?l "acc @ [d]"] dr Cons.prems by auto
  with g show ?case by (simp add: readNumeric.simps [of inp h "- 1" l acc])
qed

lemma getChar_ahead:
  "drop (position l) inp = xs \<Longrightarrow>
    getChar inp (l\<lparr>position := position l + k\<rparr>) j
      = (if j < length (drop k xs) then drop k xs ! j else CHR 0x04)"
  by (auto simp: getChar_drop ac_simps)

lemma drop_ahead:
  "drop (position l) inp = xs \<Longrightarrow>
    drop (position (l\<lparr>position := position l + k\<rparr>)) inp = drop k xs"
  by (auto simp: ac_simps)

lemma parseInt_digits:
  "ds \<noteq> [] \<Longrightarrow> \<forall>c \<in> set ds. isNumber c h \<Longrightarrow> parseInt ds r = parseDigits r ds"
  by (cases ds) (auto simp: parseInt_def isNumber_def)

lemma parseInt_minus: "parseInt (''-'' @ ds) r = - parseDigits r ds"
  by (simp add: parseInt_def)

lemma makeNumberToken_overflow:
  "parseInt v (if h then 16 else 10) < MININT \<or> MAXINT < parseInt v (if h then 16 else 10)
    \<Longrightarrow> makeNumberToken MININT MAXINT inp l v False w h = Inl LexerError"
  by (auto simp: makeNumberToken_def Let_def)

lemma lexNumberDigits_integer:
  assumes "drop (position l) inp = ds @ rest" "\<forall>c \<in> set ds. isNumber c h"
    and "case rest of [] \<Rightarrow> True | c # _ \<Rightarrow> \<not> isNumber c h"
    and "h \<or> w \<or> \<not> continuesAsReal rest"
  shows "lexNumberDigits MININT MAXINT inp l v h w
    = withLexer (makeNumberToken MININT MAXINT inp (l\<lparr>position := position l + length ds\<rparr>)
        (v @ ds) False w h) (l\<lparr>position := position l + length ds\<rparr>)"
proof -
  let ?l = "l\<lparr>position := position l + length ds\<rparr>"
  have rn: "readNumeric inp h (- 1) l [] = ([] @ ds, ?l)"
    by (rule readNumeric_run [OF assms(1,2,3)])
  have dr: "drop (position ?l) inp = rest"
    using drop_ahead [OF assms(1), of "length ds"] by simp
  show ?thesis
  proof (cases "h \<or> w")
    case True
    with rn show ?thesis by (auto simp: lexNumberDigits_def Let_def)
  next
    case False
    with assms(4) have nr: "\<not> continuesAsReal rest" by simp
    from False have hw: "\<not> h" "\<not> w" by auto
    show ?thesis
    proof (cases rest)
      case Nil
      with dr have "getChar inp ?l 0 = CHR 0x04" by (simp add: getChar_drop)
      with rn hw show ?thesis by (simp add: lexNumberDigits_def Let_def)
    next
      case (Cons c cs)
      note rc = this
      show ?thesis
      proof (cases cs)
        case Nil
        with rc dr have g: "getChar inp ?l 0 = c" "getChar inp ?l 1 = CHR 0x04"
          by (simp_all add: getChar_drop)
        have "\<not> isNumber (CHR 0x04) False" by (simp add: isNumber_def)
        with g rn hw show ?thesis
          by (simp add: lexNumberDigits_def Let_def)
      next
        case (Cons d tail)
        with rc dr have g: "getChar inp ?l 0 = c" "getChar inp ?l 1 = d"
          "getChar inp ?l 2 = (case tail of [] \<Rightarrow> CHR 0x04 | f # _ \<Rightarrow> f)"
          by (auto simp: getChar_drop split: list.splits)
        have e: "\<not> isNumber (CHR 0x04) False" by (simp add: isNumber_def)
        from nr rc Cons have
          "\<not> (c = CHR ''.'' \<and> isNumber d False)"
          "\<not> ((c = CHR ''e'' \<or> c = CHR ''E'') \<and> isNumber d False)"
          "\<not> ((c = CHR ''e'' \<or> c = CHR ''E'') \<and> d = CHR ''~''
              \<and> isNumber (case tail of [] \<Rightarrow> CHR 0x04 | f # _ \<Rightarrow> f) False)"
          using e by (auto simp: continuesAsReal_def split: list.splits)
        with g rn hw show ?thesis
          by (auto simp: lexNumberDigits_def Let_def)
      qed
    qed
  qed
qed


lemma getChar_later:
  fixes l l' :: Lexer
  assumes "drop (position l) inp = xs" "position l \<le> position l'"
  shows "getChar inp l' j
      = (if j < length (drop (position l' - position l) xs)
         then drop (position l' - position l) xs ! j else CHR 0x04)"
proof -
  from assms have "drop (position l' - position l) xs = drop (position l') inp"
    by auto
  then show ?thesis by (simp only: getChar_drop)
qed

lemma digit_not_prefix_letter:
  "isNumber c False \<Longrightarrow> c \<noteq> CHR ''w'' \<and> c \<noteq> CHR ''x'' \<and> c \<noteq> CHR ''~''"
  by (auto simp: isNumber_def)

lemma lexNumberDigits_after_prefix:
  fixes l :: Lexer
  assumes dr: "drop (position l) inp = pre @ ds @ rest"
    and dg: "\<forall>c \<in> set ds. isNumber c h"
    and er: "case rest of [] \<Rightarrow> True | c # _ \<Rightarrow> \<not> isNumber c h"
    and rl: "h \<or> w \<or> \<not> continuesAsReal rest"
    and k: "k = length pre"
  shows "lexNumberDigits MININT MAXINT inp (l\<lparr>position := position l + k\<rparr>) v h w
      = withLexer
          (makeNumberToken MININT MAXINT inp
            (l\<lparr>position := position l + k + length ds\<rparr>) (v @ ds) False w h)
          (l\<lparr>position := position l + k + length ds\<rparr>)"
proof -
  have "drop (position (l\<lparr>position := position l + k\<rparr>)) inp = drop k (pre @ ds @ rest)"
    using drop_ahead [OF dr, of k] by simp
  with k have dd: "drop (position (l\<lparr>position := position l + k\<rparr>)) inp = ds @ rest"
    by simp
  show ?thesis
    using lexNumberDigits_integer [OF dd dg er rl, of MININT MAXINT v] by simp
qed

lemma lexNumber_hexadecimal:
  fixes l :: Lexer
  assumes dr: "drop (position l) inp = (if negative then ''~'' else []) @ ''0x'' @ ds @ rest"
    and ne: "ds \<noteq> []" and dg: "\<forall>c \<in> set ds. isNumber c True"
    and er: "case rest of [] \<Rightarrow> True | c # _ \<Rightarrow> \<not> isNumber c True"
  shows "lexNumber MININT MAXINT inp l
    = withLexer
        (makeNumberToken MININT MAXINT inp
          (l\<lparr>position := position l + (if negative then 1 else 0) + 2 + length ds\<rparr>)
          ((if negative then ''-'' else []) @ ds) False False True)
        (l\<lparr>position := position l + (if negative then 1 else 0) + 2 + length ds\<rparr>)"
proof -
  obtain d ds' where ds: "ds = d # ds'" using ne by (cases ds) auto
  with dg have d: "isNumber d True" by simp
  show ?thesis
  proof (cases negative)
    case True
    with dr have dr': "drop (position l) inp = ''~0x'' @ ds @ rest" by simp
    note gc = getChar_later [OF dr']
    have LD: "lexNumberDigits MININT MAXINT inp (l\<lparr>position := position l + 3\<rparr>) ''-'' True False
      = withLexer
          (makeNumberToken MININT MAXINT inp
            (l\<lparr>position := position l + 3 + length ds\<rparr>) (''-'' @ ds) False False True)
          (l\<lparr>position := position l + 3 + length ds\<rparr>)"
      by (rule lexNumberDigits_after_prefix [OF dr' dg er]) simp_all
    from LD d ds True show ?thesis
      by (simp add: lexNumber_def Let_def gc eval_nat_numeral)
  next
    case False
    with dr have dr': "drop (position l) inp = ''0x'' @ ds @ rest" by simp
    note gc = getChar_later [OF dr']
    have LD: "lexNumberDigits MININT MAXINT inp (l\<lparr>position := position l + 2\<rparr>) [] True False
      = withLexer
          (makeNumberToken MININT MAXINT inp
            (l\<lparr>position := position l + 2 + length ds\<rparr>) ([] @ ds) False False True)
          (l\<lparr>position := position l + 2 + length ds\<rparr>)"
      by (rule lexNumberDigits_after_prefix [OF dr' dg er]) simp_all
    from LD d ds False show ?thesis
      by (simp add: lexNumber_def Let_def gc eval_nat_numeral)
  qed
qed


lemma lexNumber_word:
  fixes l :: Lexer
  assumes dr: "drop (position l) inp = ''0w'' @ ds @ rest"
    and ne: "ds \<noteq> []" and dg: "\<forall>c \<in> set ds. isNumber c False"
    and er: "case rest of [] \<Rightarrow> True | c # _ \<Rightarrow> \<not> isNumber c False"
  shows "lexNumber MININT MAXINT inp l
    = withLexer
        (makeNumberToken MININT MAXINT inp
          (l\<lparr>position := position l + 2 + length ds\<rparr>) ds False True False)
        (l\<lparr>position := position l + 2 + length ds\<rparr>)"
proof -
  obtain d ds' where ds: "ds = d # ds'" using ne by (cases ds) auto
  with dg have d: "isNumber d False" by simp
  then have dx: "d \<noteq> CHR ''x''" using digit_not_prefix_letter by simp
  note gc = getChar_later [OF dr]
  have LD: "lexNumberDigits MININT MAXINT inp (l\<lparr>position := position l + 2\<rparr>) [] False True
      = withLexer
          (makeNumberToken MININT MAXINT inp
            (l\<lparr>position := position l + 2 + length ds\<rparr>) ([] @ ds) False True False)
          (l\<lparr>position := position l + 2 + length ds\<rparr>)"
    by (rule lexNumberDigits_after_prefix [OF dr dg er]) simp_all
  from LD d dx ds show ?thesis
    by (simp add: lexNumber_def Let_def gc eval_nat_numeral)
qed

lemma lexNumber_hexadecimal_word:
  fixes l :: Lexer
  assumes dr: "drop (position l) inp = ''0wx'' @ ds @ rest"
    and ne: "ds \<noteq> []" and dg: "\<forall>c \<in> set ds. isNumber c True"
    and er: "case rest of [] \<Rightarrow> True | c # _ \<Rightarrow> \<not> isNumber c True"
  shows "lexNumber MININT MAXINT inp l
    = withLexer
        (makeNumberToken MININT MAXINT inp
          (l\<lparr>position := position l + 3 + length ds\<rparr>) ds False True True)
        (l\<lparr>position := position l + 3 + length ds\<rparr>)"
proof -
  obtain d ds' where ds: "ds = d # ds'" using ne by (cases ds) auto
  with dg have d: "isNumber d True" by simp
  note gc = getChar_later [OF dr]
  have LD: "lexNumberDigits MININT MAXINT inp (l\<lparr>position := position l + 3\<rparr>) [] True True
      = withLexer
          (makeNumberToken MININT MAXINT inp
            (l\<lparr>position := position l + 3 + length ds\<rparr>) ([] @ ds) False True True)
          (l\<lparr>position := position l + 3 + length ds\<rparr>)"
    by (rule lexNumberDigits_after_prefix [OF dr dg er]) simp_all
  from LD d ds show ?thesis
    by (simp add: lexNumber_def Let_def gc eval_nat_numeral)
qed

lemma lexNumber_plain:
  assumes "getChar inp l 0 \<noteq> CHR ''~''"
    and "\<not> (getChar inp l 0 = CHR ''0''
          \<and> (getChar inp l 1 = CHR ''w'' \<or> getChar inp l 1 = CHR ''x''))"
  shows "lexNumber MININT MAXINT inp l = lexNumberDigits MININT MAXINT inp l [] False False"
  using assms by (auto simp: lexNumber_def Let_def)

lemma lexNumber_negated:
  assumes "getChar inp l 0 = CHR ''~''"
    and "\<not> (getChar inp (l\<lparr>position := position l + 1\<rparr>) 0 = CHR ''0''
          \<and> (getChar inp (l\<lparr>position := position l + 1\<rparr>) 1 = CHR ''w''
             \<or> getChar inp (l\<lparr>position := position l + 1\<rparr>) 1 = CHR ''x''))"
  shows "lexNumber MININT MAXINT inp l
    = lexNumberDigits MININT MAXINT inp (l\<lparr>position := position l + 1\<rparr>) ''-'' False False"
  using assms by (auto simp: lexNumber_def Let_def)

lemma lexNumber_decimal:
  fixes l :: Lexer
  assumes dr: "drop (position l) inp = (if negative then ''~'' else []) @ ds @ rest"
    and ne: "ds \<noteq> []" and dg: "\<forall>c \<in> set ds. isNumber c False"
    and er: "case rest of [] \<Rightarrow> True | c # _ \<Rightarrow> \<not> isNumber c False"
    and nr: "\<not> continuesAsReal rest"
    and zr: "ds \<noteq> ''0'' \<or> (case rest of [] \<Rightarrow> True | c # _ \<Rightarrow> c \<noteq> CHR ''w'' \<and> c \<noteq> CHR ''x'')"
  shows "lexNumber MININT MAXINT inp l
    = withLexer
        (makeNumberToken MININT MAXINT inp
          (l\<lparr>position := position l + (if negative then 1 else 0) + length ds\<rparr>)
          ((if negative then ''-'' else []) @ ds) False False False)
        (l\<lparr>position := position l + (if negative then 1 else 0) + length ds\<rparr>)"
proof -
  obtain d ds' where ds: "ds = d # ds'" using ne by (cases ds) auto
  with dg have d: "isNumber d False" by simp
  then have dn: "d \<noteq> CHR ''w''" "d \<noteq> CHR ''x''" "d \<noteq> CHR ''~''"
    using digit_not_prefix_letter by auto
  define second where "second = (if 1 < length (ds @ rest) then (ds @ rest) ! 1 else CHR 0x04)"
  have second: "d = CHR ''0'' \<Longrightarrow> second \<noteq> CHR ''w'' \<and> second \<noteq> CHR ''x''"
  proof (cases ds')
    case Nil
    assume "d = CHR ''0''"
    with Nil ds zr show ?thesis
      by (cases rest) (auto simp: second_def)
  next
    case (Cons d' ds'')
    with ds dg have "isNumber d' False" by simp
    with Cons ds show ?thesis using digit_not_prefix_letter by (auto simp: second_def)
  qed
  have rl: "False \<or> False \<or> \<not> continuesAsReal rest" using nr by simp
  show ?thesis
  proof (cases negative)
    case True
    let ?l1 = "l\<lparr>position := position l + 1\<rparr>"
    from True dr have dr': "drop (position l) inp = ''~'' @ ds @ rest" by simp
    note gc = getChar_later [OF dr']
    have g0: "getChar inp l 0 = CHR ''~''" by (simp add: gc)
    have g1: "getChar inp ?l1 0 = d" by (simp add: gc ds)
    have g2: "getChar inp ?l1 1 = second" by (simp add: gc second_def)
    have "lexNumber MININT MAXINT inp l
        = lexNumberDigits MININT MAXINT inp ?l1 ''-'' False False"
      by (rule lexNumber_negated) (use g0 g1 g2 second in auto)
    moreover have "lexNumberDigits MININT MAXINT inp ?l1 ''-'' False False
      = withLexer
          (makeNumberToken MININT MAXINT inp
            (l\<lparr>position := position l + 1 + length ds\<rparr>) (''-'' @ ds) False False False)
          (l\<lparr>position := position l + 1 + length ds\<rparr>)"
      by (rule lexNumberDigits_after_prefix [OF dr' dg er rl]) simp
    ultimately show ?thesis using True by simp
  next
    case False
    from False dr have dr': "drop (position l) inp = [] @ ds @ rest" by simp
    note gc = getChar_later [OF dr']
    have g1: "getChar inp l 0 = d" by (simp add: gc ds)
    have g2: "getChar inp l 1 = second" by (simp add: gc second_def)
    have "lexNumber MININT MAXINT inp l
        = lexNumberDigits MININT MAXINT inp l [] False False"
      by (rule lexNumber_plain) (use g1 g2 second dn in auto)
    moreover have "lexNumberDigits MININT MAXINT inp (l\<lparr>position := position l + 0\<rparr>) [] False False
      = withLexer
          (makeNumberToken MININT MAXINT inp
            (l\<lparr>position := position l + 0 + length ds\<rparr>) ([] @ ds) False False False)
          (l\<lparr>position := position l + 0 + length ds\<rparr>)"
      by (rule lexNumberDigits_after_prefix [OF dr' dg er rl]) simp
    ultimately show ?thesis using False by simp
  qed
qed


lemma lexNumber_out_of_range:
  fixes l :: Lexer
  assumes dr: "drop (position l) inp = numericConstant negative form ds @ rest"
    and ne: "ds \<noteq> []" and dg: "\<forall>c \<in> set ds. isNumber c (isHexadecimal form)"
    and nw: "\<not> (negative \<and> isWord form)" and ec: "endsConstant form ds rest"
    and out: "constantValue negative form ds < MININT \<or> MAXINT < constantValue negative form ds"
  shows "lexNumber MININT MAXINT inp l = Inl LexerError"
proof -
  have pv: "parseInt ((if negative then ''-'' else []) @ ds) (if isHexadecimal form then 16 else 10)
      = constantValue negative form ds"
    using parseInt_digits [OF ne dg] parseInt_minus [of ds]
    by (simp add: constantValue_def)
  have mk: "\<And>l' w. makeNumberToken MININT MAXINT inp l'
      ((if negative then ''-'' else []) @ ds) False w (isHexadecimal form) = Inl LexerError"
    by (rule makeNumberToken_overflow) (use pv out in simp)
  from ec have er: "case rest of [] \<Rightarrow> True | c # _ \<Rightarrow> \<not> isNumber c (isHexadecimal form)"
    by (simp add: endsConstant_def)
  show ?thesis
  proof (cases form)
    case Decimal
    with ec have nr: "\<not> continuesAsReal rest"
      and zr: "ds \<noteq> ''0'' \<or> (case rest of [] \<Rightarrow> True | c # _ \<Rightarrow> c \<noteq> CHR ''w'' \<and> c \<noteq> CHR ''x'')"
      by (auto simp: endsConstant_def)
    from Decimal dg er have dg': "\<forall>c \<in> set ds. isNumber c False"
      and er': "case rest of [] \<Rightarrow> True | c # _ \<Rightarrow> \<not> isNumber c False"
      by (auto split: list.splits)
    from Decimal dr have "drop (position l) inp = (if negative then ''~'' else []) @ ds @ rest"
      by (simp add: numericConstant_def)
    from lexNumber_decimal [OF this ne dg' er' nr zr, of MININT MAXINT] Decimal mk [of _ False]
    show ?thesis by (simp add: withLexer_def)
  next
    case Hexadecimal
    from Hexadecimal dg er have dg': "\<forall>c \<in> set ds. isNumber c True"
      and er': "case rest of [] \<Rightarrow> True | c # _ \<Rightarrow> \<not> isNumber c True"
      by (auto split: list.splits)
    from Hexadecimal dr have "drop (position l) inp = (if negative then ''~'' else []) @ ''0x'' @ ds @ rest"
      by (simp add: numericConstant_def)
    from lexNumber_hexadecimal [OF this ne dg' er', of MININT MAXINT] Hexadecimal mk [of _ False]
    show ?thesis by (simp add: withLexer_def)
  next
    case DecimalWord
    with nw have nn: "\<not> negative" by simp
    from DecimalWord dg er have dg': "\<forall>c \<in> set ds. isNumber c False"
      and er': "case rest of [] \<Rightarrow> True | c # _ \<Rightarrow> \<not> isNumber c False"
      by (auto split: list.splits)
    from nn DecimalWord dr have "drop (position l) inp = ''0w'' @ ds @ rest"
      by (simp add: numericConstant_def)
    from lexNumber_word [OF this ne dg' er', of MININT MAXINT] DecimalWord nn mk [of _ True]
    show ?thesis by (simp add: withLexer_def)
  next
    case HexadecimalWord
    with nw have nn: "\<not> negative" by simp
    from HexadecimalWord dg er have dg': "\<forall>c \<in> set ds. isNumber c True"
      and er': "case rest of [] \<Rightarrow> True | c # _ \<Rightarrow> \<not> isNumber c True"
      by (auto split: list.splits)
    from nn HexadecimalWord dr have "drop (position l) inp = ''0wx'' @ ds @ rest"
      by (simp add: numericConstant_def)
    from lexNumber_hexadecimal_word [OF this ne dg' er', of MININT MAXINT] HexadecimalWord nn
      mk [of _ True]
    show ?thesis by (simp add: withLexer_def)
  qed
qed

lemma numericConstant_start:
  assumes ne: "ds \<noteq> []" and dg: "\<forall>c \<in> set ds. isNumber c (isHexadecimal form)"
  shows "\<exists>c cs. numericConstant negative form ds = c # cs
      \<and> \<not> isWhitespace c \<and> c \<noteq> CHR ''(''
      \<and> (isNumber c False
          \<or> (c = CHR ''~'' \<and> (case cs of [] \<Rightarrow> False | c' # _ \<Rightarrow> isNumber c' False)))"
proof -
  obtain d ds' where ds: "ds = d # ds'" using ne by (cases ds) auto
  have z: "isNumber (CHR ''0'') False" "\<not> isWhitespace (CHR ''0'')" "\<not> isWhitespace (CHR ''~'')"
    by (simp_all add: isNumber_def isWhitespace_def)
  have w: "\<And>c. isNumber c False \<Longrightarrow> \<not> isWhitespace c \<and> c \<noteq> CHR ''(''"
    by (auto simp: isNumber_def isWhitespace_def)
  from ds dg z w show ?thesis
    by (cases form; cases negative) (auto simp: numericConstant_def)
qed

text \<open>
  C6.  Every numeric constant (decimal, hexadecimal, decimal word or hexadecimal word)
  whose value is greater than \<open>MAXINT\<close> or less than \<open>MININT\<close> makes \<open>lex\<close> fail with a
  \<open>LexerError\<close>: when the loop of \<open>lex\<close> stands at such a constant, it returns the
  error, whatever it has collected; and so does \<open>lex\<close> on an input that starts with the
  constant.
\<close>

theorem numeric_constant_out_of_range:
  fixes l :: Lexer
  assumes dr: "drop (position l) inp = numericConstant negative form ds @ rest"
    and ne: "ds \<noteq> []" and dg: "\<forall>c \<in> set ds. isNumber c (isHexadecimal form)"
    and nw: "\<not> (negative \<and> isWord form)" and ec: "endsConstant form ds rest"
    and out: "constantValue negative form ds < MININT \<or> MAXINT < constantValue negative form ds"
  shows "lexLoop MININT MAXINT options inp l result = Inl LexerError
    \<and> (position l = 0 \<longrightarrow> lex MININT MAXINT inp options = Inl LexerError)"
proof -
  obtain c cs where st: "numericConstant negative form ds = c # cs"
    and ws: "\<not> isWhitespace c" "c \<noteq> CHR ''(''"
    and num: "isNumber c False
        \<or> (c = CHR ''~'' \<and> (case cs of [] \<Rightarrow> False | c' # _ \<Rightarrow> isNumber c' False))"
    using numericConstant_start [OF ne dg, of negative] by blast
  have nt: "nextToken MININT MAXINT options inp l0 = Inl LexerError"
    if p: "position l0 = position l" for l0 :: Lexer
  proof -
    let ?l = "l0\<lparr>tokenStart := position l0\<rparr>"
    from dr p have dr0: "drop (position ?l) inp = numericConstant negative form ds @ rest"
      by simp
    have ln: "lexNumber MININT MAXINT inp ?l = Inl LexerError"
      by (rule lexNumber_out_of_range [OF dr0 ne dg nw ec out])
    from dr0 st have g: "getChar inp ?l 0 = c"
      "getChar inp ?l 1 = (case cs @ rest of [] \<Rightarrow> CHR 0x04 | c' # _ \<Rightarrow> c')"
      by (auto simp: getChar_drop split: list.splits)
    from num have "isNumber (getChar inp ?l 0) False
        \<or> (getChar inp ?l 0 = CHR ''~'' \<and> isNumber (getChar inp ?l 1) False)"
      unfolding g by (cases cs) auto
    with ln show ?thesis by (simp add: nextToken_def Let_def)
  qed
  from dr st have "position l < length inp"
    by (metis drop_all list.distinct(1) not_le append_Cons)
  then have loop: "lexLoop MININT MAXINT options inp l0 r = Inl LexerError"
    if "position l0 = position l" for l0 :: Lexer and r
    using nt [OF that] that
    by (simp add: lexLoop.simps [of MININT MAXINT options inp l0 r] finished_def)
  have "lex MININT MAXINT inp options = Inl LexerError" if z: "position l = 0"
  proof -
    let ?i = "\<lparr>position = 0, tokenStart = 0\<rparr>"
    from dr st z have d0: "drop (position ?i) inp = c # cs @ rest" by simp
    then have g: "getChar inp ?i 0 = c" by (simp add: getChar_drop)
    from d0 have "inp = c # cs @ rest" by simp
    with ws have sub: "substr inp 0 2 \<noteq> ''(*''" by (simp add: substr_def)
    from g ws have "skipWhitespace inp ?i = ?i"
      by (simp add: skipWhitespace.simps [of inp ?i])
    moreover from sub have "skipComments inp ?i = Inr ?i"
      by (simp add: skipComments.simps [of inp ?i])
    ultimately have "skipLoop inp ?i = Inr ?i"
      by (simp add: skipLoop.simps [of inp ?i])
    then have "skipWhitespaceAndComments inp ?i = Inr ?i"
      by (simp add: skipWhitespaceAndComments_def)
    with loop [of ?i "[]"] z show ?thesis by (simp add: lex_def)
  qed
  with loop [of l result] show ?thesis by simp
qed

theorem numeric_constant_out_of_range_witness:
  "lex (- 1073741824) 1073741823 ''1073741824 + 1'' \<lparr>allowUnicodeInStrings = False\<rparr>
      = Inl LexerError
   \<and> lex (- 1073741824) 1073741823 ''~1073741825'' \<lparr>allowUnicodeInStrings = False\<rparr>
      = Inl LexerError
   \<and> lex (- 1073741824) 1073741823 ''0x40000000;'' \<lparr>allowUnicodeInStrings = False\<rparr>
      = Inl LexerError
   \<and> lex (- 1073741824) 1073741823 ''0w1073741824'' \<lparr>allowUnicodeInStrings = False\<rparr>
      = Inl LexerError
   \<and> lex (- 1073741824) 1073741823 ''0wx40000000'' \<lparr>allowUnicodeInStrings = False\<rparr>
      = Inl LexerError"
  using
    numeric_constant_out_of_range [of "\<lparr>position = 0, tokenStart = 0\<rparr>" "''1073741824 + 1''"
      False Decimal "''1073741824''" "'' + 1''" "- 1073741824" 1073741823
      "\<lparr>allowUnicodeInStrings = False\<rparr>" "[]"]
    numeric_constant_out_of_range [of "\<lparr>position = 0, tokenStart = 0\<rparr>" "''~1073741825''"
      True Decimal "''1073741825''" "[]" "- 1073741824" 1073741823
      "\<lparr>allowUnicodeInStrings = False\<rparr>" "[]"]
    numeric_constant_out_of_range [of "\<lparr>position = 0, tokenStart = 0\<rparr>" "''0x40000000;''"
      False Hexadecimal "''40000000''" "'';''" "- 1073741824" 1073741823
      "\<lparr>allowUnicodeInStrings = False\<rparr>" "[]"]
    numeric_constant_out_of_range [of "\<lparr>position = 0, tokenStart = 0\<rparr>" "''0w1073741824''"
      False DecimalWord "''1073741824''" "[]" "- 1073741824" 1073741823
      "\<lparr>allowUnicodeInStrings = False\<rparr>" "[]"]
    numeric_constant_out_of_range [of "\<lparr>position = 0, tokenStart = 0\<rparr>" "''0wx40000000''"
      False HexadecimalWord "''40000000''" "[]" "- 1073741824" 1073741823
      "\<lparr>allowUnicodeInStrings = False\<rparr>" "[]"]
  by (simp add: numericConstant_def constantValue_def endsConstant_def continuesAsReal_def
      isNumber_def parseDigits_def digitValue_def)

subsection \<open>Function declarations\<close>





subsection \<open>Which states a declaration changes\<close>

lemma prefix_nth:
  "prefix xs ys \<longleftrightarrow> length xs \<le> length ys \<and> (\<forall>b < length xs. ys ! b = xs ! b)"
proof
  assume "prefix xs ys"
  then show "length xs \<le> length ys \<and> (\<forall>b < length xs. ys ! b = xs ! b)"
    by (auto simp: prefix_def nth_append)
next
  assume a: "length xs \<le> length ys \<and> (\<forall>b < length xs. ys ! b = xs ! b)"
  then have "take (length xs) ys = xs"
    by (intro nth_equalityI) auto
  then have "ys = xs @ drop (length xs) ys"
    by (metis append_take_drop_id)
  then show "prefix xs ys" by (metis prefixI)
qed






lemma unchangedExcept_new:
  "length store \<le> state \<Longrightarrow> unchangedExcept state store store' \<Longrightarrow> prefix store store'"
  by (auto simp: unchangedExcept_def prefix_nth)





















subsection \<open>Ancestors and lookups\<close>

lemma lookupChain_same:
  "state < length store \<Longrightarrow> state < length store'
    \<Longrightarrow> \<forall>b \<le> state. store' ! b = store ! b
    \<Longrightarrow> lookupChain env name state store' = lookupChain env name state store"
proof (induction env name state store rule: lookupChain.induct)
  case (1 env name state store)
  show ?case
  proof (cases "map_of (env (store ! state)) name")
    case (Some x)
    with "1.prems" show ?thesis
      by (simp add: lookupChain.simps [of env name state])
  next
    case None
    show ?thesis
    proof (cases "parent (store ! state)")
      case pn: None
      with None "1.prems" show ?thesis
        by (simp add: lookupChain.simps [of env name state])
    next
      case (Some q)
      show ?thesis
      proof (cases "q < state")
        case True
        with "1.prems" have "lookupChain env name q store' = lookupChain env name q store"
          by (intro "1.IH" [OF _ None Some]) auto
        with None Some True "1.prems" show ?thesis
          by (simp add: lookupChain.simps [of env name state])
      next
        case False
        with None Some "1.prems" show ?thesis
          by (simp add: lookupChain.simps [of env name state])
      qed
    qed
  qed
qed

lemma lookupChain_prefix:
  "prefix store store' \<Longrightarrow> state < length store
    \<Longrightarrow> lookupChain env name state store' = lookupChain env name state store"
  by (rule lookupChain_same) (auto simp: prefix_nth)



lemma properAncestors_Cons:
  "state < length store \<Longrightarrow> parent (store ! state) = Some q \<Longrightarrow> q < state
    \<Longrightarrow> properAncestors state store = q # properAncestors q store"
  by (simp add: properAncestors.simps [of state])

lemma properAncestors_nonempty:
  "properAncestors state store \<noteq> []
    \<Longrightarrow> \<exists>q. state < length store \<and> parent (store ! state) = Some q \<and> q < state"
  by (cases "state < length store"; cases "parent (store ! state)")
    (auto simp: properAncestors.simps [of state] split: if_splits)

lemma properAncestors_less: "q \<in> set (properAncestors state store) \<Longrightarrow> q < state"
proof (induction state store rule: properAncestors.induct)
  case (1 state store)
  from "1.prems" have "properAncestors state store \<noteq> []" by auto
  from properAncestors_nonempty [OF this] obtain p where lt: "state < length store"
    and p: "parent (store ! state) = Some p" and pl: "p < state" by blast
  from "1.prems" properAncestors_Cons [OF lt p pl]
  have q: "q = p \<or> q \<in> set (properAncestors p store)" by simp
  from q show ?case
  proof
    assume "q = p"
    with pl show ?thesis by simp
  next
    assume "q \<in> set (properAncestors p store)"
    from "1.IH" [OF lt p pl this] pl show ?thesis by simp
  qed
qed





subsection \<open>The state after a failed declaration\<close>



lemma lookupChain_here:
  "state < length store \<Longrightarrow> map_of (env (store ! state)) name = Some x
    \<Longrightarrow> lookupChain env name state store = Some x"
  by (simp add: lookupChain.simps [of env name state])

lemma lookupChain_up:
  "state < length store \<Longrightarrow> map_of (env (store ! state)) name = None
    \<Longrightarrow> parent (store ! state) = Some q \<Longrightarrow> q < state
    \<Longrightarrow> lookupChain env name state store = lookupChain env name q store"
  by (simp add: lookupChain.simps [of env name state])

lemma lookupChain_top:
  "state < length store \<Longrightarrow> map_of (env (store ! state)) name = None
    \<Longrightarrow> parent (store ! state) = None
    \<Longrightarrow> lookupChain env name state store = None"
  by (simp add: lookupChain.simps [of env name state])


lemma localValYE_evaluate:
  "evaluate raising bindingNothing 0 (LocalDeclaration 0 valYE (EmptyDeclaration 5) 1)
     [emptyState 0 None]
    = (Inr (0, True, Some (ExceptionValue ''Match'' None 0)),
       [emptyState 0 None, emptyState 0 (Some 0)])"
  by code_simp




subsection \<open>Applying a function value\<close>

lemma setDynamicValues_update:
  "state < length store
    \<Longrightarrow> setDynamicValues bs state store
        = store[state := (store ! state)\<lparr>dynamicValues := rev bs @ dynamicValues (store ! state)\<rparr>]"
  unfolding setDynamicValues_def
proof (induction bs arbitrary: store)
  case Nil
  then show ?case by simp
next
  case (Cons b bs)
  obtain name v where b: "b = (name, v)" by (cases b)
  from Cons.prems have "state < length (setDynamicValue name v state store)"
    by (simp add: setDynamicValue_def)
  from Cons.IH [OF this] Cons.prems show ?case
    by (simp add: b setDynamicValue_def)
qed

lemma getDynamicValue_bound:
  assumes "state < length store"
  shows "getDynamicValue name state
      (store[state := (store ! state)\<lparr>dynamicValues := new @ dynamicValues (store ! state)\<rparr>])
    = (case map_of new name of
         Some v \<Rightarrow> Some v
       | None \<Rightarrow> getDynamicValue name state store)"
proof -
  let ?store' = "store[state := (store ! state)\<lparr>dynamicValues :=
      new @ dynamicValues (store ! state)\<rparr>]"
  have up: "lookupChain dynamicValues name q ?store' = lookupChain dynamicValues name q store"
    if "q < state" for q
    using that assms by (intro lookupChain_same) auto
  show ?thesis
  proof (cases "map_of new name")
    case (Some v)
    with assms show ?thesis
      by (simp add: getDynamicValue_def lookupChain.simps [of dynamicValues name state]
          map_add_def)
  next
    case None
    with assms up show ?thesis
      by (auto simp: getDynamicValue_def lookupChain.simps [of dynamicValues name state]
          map_add_def split: option.splits)
  qed
qed

lemma getDynamicValue_setDynamicValues:
  "state < length store
    \<Longrightarrow> getDynamicValue name state (setDynamicValues bs state store)
        = (case map_of (rev bs) name of
             Some v \<Rightarrow> Some v
           | None \<Rightarrow> getDynamicValue name state store)"
  by (simp add: setDynamicValues_update getDynamicValue_bound)

lemma getDynamicValue_nested:
  assumes "state < length store"
  shows "getDynamicValue name (length store) (store @ [emptyState i (Some state)])
    = getDynamicValue name state store"
proof -
  have "lookupChain dynamicValues name (length store) (store @ [emptyState i (Some state)])
      = lookupChain dynamicValues name state (store @ [emptyState i (Some state)])"
    using assms by (intro lookupChain_up) (simp_all add: emptyState_def)
  also have "\<dots> = lookupChain dynamicValues name state store"
    using assms by (intro lookupChain_prefix) simp_all
  finally show ?thesis by (simp add: getDynamicValue_def)
qed

lemma map_of_rev_map:
  "map_of (rev (map (\<lambda>(name, v). (name, f v)) bs)) name = map_option f (map_of (rev bs) name)"
  by (induction bs) (auto simp: map_add_def split: option.splits)

lemma map_of_rev_None: "name \<notin> fst ` set bs \<Longrightarrow> map_of (rev bs) name = None"
  by (simp add: map_of_eq_None_iff)

text \<open>
  C5.  A \<open>FunctionValue\<close> holds its captured state and the list of its sibling
  recursive bindings.  Applying it allocates a new state \<open>nstate\<close> whose parent is the
  captured state, leaves every other state as it is, and computes the body of its match
  on the argument in \<open>nstate\<close>, in which every sibling is bound again: a sibling that
  is a function as the function value with the captured state, the whole group and the
  sibling's body, any other sibling as it is, the last binding of a name winning; every
  other name resolves as in the captured state (which is a state of the store).  And
  \<open>ValueDeclaration.evaluate\<close> binds, in the state it is given, every function of a
  recursive group with the list of the whole group.
\<close>

theorem function_value_application:
  "\<exists>nstate store1.
     FunctionValue_compute mcompute state recursives body argument store
       = mcompute body nstate argument store1
     \<and> nstate = length store \<and> length store1 = Suc (length store) \<and> prefix store store1
     \<and> parent (store1 ! nstate) = Some state
     \<and> (\<forall>name s r b. map_of (rev recursives) name = Some (FunctionValue s r b) \<longrightarrow>
          getDynamicValue name nstate store1 = Some (FunctionValue state recursives b))
     \<and> (\<forall>name v. map_of (rev recursives) name = Some v \<longrightarrow>
          (\<forall>s r b. v \<noteq> FunctionValue s r b) \<longrightarrow> getDynamicValue name nstate store1 = Some v)
     \<and> (\<forall>name. name \<notin> fst ` set recursives \<longrightarrow> state < length store \<longrightarrow>
          getDynamicValue name nstate store1 = getDynamicValue name state store)
     \<and> (\<forall>name s r b result recs store2.
          valueBindingLoop compute matches state bindings False [] [] store
            = (Inr (Inr (result, recs)), store2)
          \<longrightarrow> map_of (rev recs) name = Some (FunctionValue s r b)
          \<longrightarrow> state < length store2
          \<longrightarrow> (\<exists>store'. evaluate compute matches state (ValueDeclaration pos tvs bindings i) store
                  = (Inr (state, False, None), store')
                \<and> getDynamicValue name state store' = Some (FunctionValue s recs b)))"
proof -
  let ?bs = "map (\<lambda>(name, v). (name, adjoinRecursive state recursives v)) recursives"
  let ?n = "length store"
  let ?nested = "store @ [emptyState (stateId (store ! state)) (Some state)]"
  let ?store1 = "setDynamicValues ?bs ?n ?nested"
  have nl: "?n < length ?nested" by simp
  have 1: "FunctionValue_compute mcompute state recursives body argument store
      = mcompute body ?n argument ?store1"
    by (simp add: FunctionValue_compute_def getNestedState_def)
  have eq: "?store1 = store @ [(emptyState (stateId (store ! state)) (Some state))
      \<lparr>dynamicValues := rev ?bs\<rparr>]"
    unfolding setDynamicValues_update [OF nl] by (simp add: emptyState_def)
  have 2: "length ?store1 = Suc ?n \<and> prefix store ?store1
      \<and> parent (?store1 ! ?n) = Some state"
    unfolding eq by (simp add: emptyState_def)
  have look: "getDynamicValue name ?n ?store1
      = (case map_of (rev recursives) name of
           Some v \<Rightarrow> Some (adjoinRecursive state recursives v)
         | None \<Rightarrow> getDynamicValue name ?n ?nested)" for name
    by (simp add: getDynamicValue_setDynamicValues [OF nl] map_of_rev_map
        split: option.splits)
  have 3: "\<forall>name s r b. map_of (rev recursives) name = Some (FunctionValue s r b) \<longrightarrow>
      getDynamicValue name ?n ?store1 = Some (FunctionValue state recursives b)"
    by (simp only: look) (simp add: adjoinRecursive_def)
  have 4: "\<forall>name v. map_of (rev recursives) name = Some v \<longrightarrow>
      (\<forall>s r b. v \<noteq> FunctionValue s r b) \<longrightarrow> getDynamicValue name ?n ?store1 = Some v"
    by (simp only: look) (auto simp: adjoinRecursive_def split: Value.splits)
  have 5: "\<forall>name. name \<notin> fst ` set recursives \<longrightarrow> state < length store \<longrightarrow>
      getDynamicValue name ?n ?store1 = getDynamicValue name state store"
    by (simp only: look) (simp add: map_of_rev_None getDynamicValue_nested)
  have 6: "\<forall>name s r b result recs store2.
      valueBindingLoop compute matches state bindings False [] [] store
        = (Inr (Inr (result, recs)), store2)
      \<longrightarrow> map_of (rev recs) name = Some (FunctionValue s r b)
      \<longrightarrow> state < length store2
      \<longrightarrow> (\<exists>store'. evaluate compute matches state (ValueDeclaration pos tvs bindings i) store
              = (Inr (state, False, None), store')
            \<and> getDynamicValue name state store' = Some (FunctionValue s recs b))"
  proof (intro allI impI)
    fix name s r b result recs store2
    assume l: "valueBindingLoop compute matches state bindings False [] [] store
        = (Inr (Inr (result, recs)), store2)"
      and m: "map_of (rev recs) name = Some (FunctionValue s r b)"
      and v: "state < length store2"
    let ?store' = "setDynamicValues
        (map (\<lambda>(name, v). (name, rebuildRecursive recs v)) recs) state
        (setDynamicValues result state store2)"
    from l have e: "evaluate compute matches state (ValueDeclaration pos tvs bindings i) store
        = (Inr (state, False, None), ?store')"
      by (simp add: ValueDeclaration_evaluate_def)
    from v have "state < length (setDynamicValues result state store2)"
      by (simp add: setDynamicValues_update)
    from getDynamicValue_setDynamicValues [OF this] m
    have "getDynamicValue name state ?store' = Some (FunctionValue s recs b)"
      by (simp add: map_of_rev_map rebuildRecursive_def)
    with e show "\<exists>store'. evaluate compute matches state
          (ValueDeclaration pos tvs bindings i) store = (Inr (state, False, None), store')
        \<and> getDynamicValue name state store' = Some (FunctionValue s recs b)"
      by blast
  qed
  from 1 2 3 4 5 6 show ?thesis by blast
qed

theorem function_value_application_witness:
  "fst (FunctionValue_compute
     (\<lambda>body nstate argument store.
        (case getDynamicValue ''odd'' nstate store of
           Some v \<Rightarrow> Inr (v, False)
         | None \<Rightarrow> Inl EvaluationError, store))
     0
     [(''even'', FunctionValue 0 [] (Match 1 [])), (''odd'', FunctionValue 0 [] (Match 2 []))]
     (Match 1 []) (Integer 1) [emptyState 0 None])
   = Inr (FunctionValue 0
            [(''even'', FunctionValue 0 [] (Match 1 [])),
             (''odd'', FunctionValue 0 [] (Match 2 []))]
            (Match 2 []), False)
   \<and> (\<exists>store'.
         evaluate (\<lambda>e state store. (Inr (FunctionValue state [] (Match 1 []), False), store))
           (\<lambda>p state v store. (Inr (Some [(''f'', v)]), store)) 0
           (ValueDeclaration 0 []
              [ValueBinding 8 True (ValueIdentifier 8 (AlphanumericIdentifierToken ''f'', 8))
                 (Lambda 12 (Match 1 []))] 1)
           [emptyState 0 None]
         = (Inr (0, False, None), store')
       \<and> getDynamicValue ''f'' 0 store'
         = Some (FunctionValue 0 [(''f'', FunctionValue 0 [] (Match 1 []))] (Match 1 [])))"
proof -
  let ?recs = "[(''even'', FunctionValue 0 [] (Match 1 [])),
                (''odd'', FunctionValue 0 [] (Match 2 []))]"
  let ?mc = "\<lambda>(body :: Match) nstate (argument :: Value) store.
        (case getDynamicValue ''odd'' nstate store of
           Some v \<Rightarrow> Inr (v, False)
         | None \<Rightarrow> (Inl EvaluationError :: Error + Value \<times> bool), store)"
  let ?c = "\<lambda>(e :: PatternExpression) state (store :: Store).
        ((Inr (FunctionValue state [] (Match 1 []), False) :: Error + Value \<times> bool), store)"
  let ?m = "\<lambda>(p :: PatternExpression) (state :: StateRef) (v :: Value) (store :: Store).
        ((Inr (Some [(''f'', v)]) :: Error + (string \<times> Value) list option), store)"
  let ?b = "[ValueBinding 8 True (ValueIdentifier 8 (AlphanumericIdentifierToken ''f'', 8))
                 (Lambda 12 (Match 1 []))]"
  from function_value_application
    [of ?mc 0 ?recs "Match 1 []" "Integer 1" "[emptyState 0 None]" ?c ?m ?b 0 "[]" 1]
  obtain nstate store1 where
    run: "FunctionValue_compute ?mc 0 ?recs (Match 1 []) (Integer 1) [emptyState 0 None]
            = ?mc (Match 1 []) nstate (Integer 1) store1"
    and sib: "\<forall>name s r b. map_of (rev ?recs) name = Some (FunctionValue s r b) \<longrightarrow>
          getDynamicValue name nstate store1 = Some (FunctionValue 0 ?recs b)"
    and decl: "\<forall>name s r b result recs store2.
          valueBindingLoop ?c ?m 0 ?b False [] [] [emptyState 0 None]
            = (Inr (Inr (result, recs)), store2)
          \<longrightarrow> map_of (rev recs) name = Some (FunctionValue s r b)
          \<longrightarrow> 0 < length store2
          \<longrightarrow> (\<exists>store'. evaluate ?c ?m 0 (ValueDeclaration 0 [] ?b 1) [emptyState 0 None]
                  = (Inr (0, False, None), store')
                \<and> getDynamicValue name 0 store' = Some (FunctionValue s recs b))"
    by blast
  have "map_of (rev ?recs) ''odd'' = Some (FunctionValue 0 [] (Match 2 []))"
    by simp
  with sib have "getDynamicValue ''odd'' nstate store1 = Some (FunctionValue 0 ?recs (Match 2 []))"
    by blast
  with run have first: "fst (FunctionValue_compute ?mc 0 ?recs (Match 1 []) (Integer 1)
        [emptyState 0 None])
      = Inr (FunctionValue 0 ?recs (Match 2 []), False)"
    by simp
  have loop: "valueBindingLoop ?c ?m 0 ?b False [] [] [emptyState 0 None]
      = (Inr (Inr ([], [(''f'', FunctionValue 0 [] (Match 1 []))])), [emptyState 0 None])"
    by (simp add: ValueBinding_compute_def)
  have "map_of (rev [(''f'', FunctionValue 0 [] (Match 1 []))]) ''f''
      = Some (FunctionValue 0 [] (Match 1 []))"
    by simp
  with decl loop have second: "\<exists>store'.
      evaluate ?c ?m 0 (ValueDeclaration 0 [] ?b 1) [emptyState 0 None]
        = (Inr (0, False, None), store')
      \<and> getDynamicValue ''f'' 0 store'
        = Some (FunctionValue 0 [(''f'', FunctionValue 0 [] (Match 1 []))] (Match 1 []))"
    by fastforce
  from first second show ?thesis by blast
qed

subsection \<open>Rebinding a protected identifier\<close>

lemma protectedStore_lookups:
  "getRebindStatus ''true'' 0 protectedStore = Never"
  "getDynamicValue ''Match'' 0 protectedStore = Some (ExceptionConstructor ''Match'' 0 0)"
  "getValueIdentifierId ''true'' 0 protectedStore = 0"
  "getRebindStatus ''true'' 0 (incrementValueIdentifierId ''true'' 0 protectedStore) = Never"
  "getDynamicValue ''true'' 0
     (setDynamicValue ''true'' (ExceptionConstructor ''Match'' 0 0) 0 protectedStore)
    = Some (ExceptionConstructor ''Match'' 0 0)"
  "getDynamicValue ''true'' 0 (setDynamicValue ''true'' (Integer 1) 0 protectedStore)
    = Some (Integer 1)"
  "getValueIdentifierId ''true'' 0 (incrementValueIdentifierId ''true'' 0 protectedStore) = 1"
  by code_simp+

text \<open>
  C1.  Not every declaration refuses to rebind an identifier whose rebind status is
  \<open>Never\<close>.  In a state where \<open>true\<close> is protected, \<open>exception true = Match\<close>
  (\<open>ExceptionAlias.evaluate\<close>) binds \<open>true\<close> to the exception and reports no error, and
  \<open>ValueDeclaration.evaluate\<close> binds \<open>true\<close> when the pattern match yields a binding
  for it.  \<open>exception true\<close> and \<open>datatype t = true\<close> are refused with an
  \<open>EvaluationError\<close>, after the id of \<open>true\<close> has been incremented.
\<close>

theorem protected_identifier_is_rebound:
  "getRebindStatus ''true'' 0 protectedStore = Never
   \<and> evaluate compute matches 0
         (ExceptionDeclaration 0
            [ExceptionAlias 10 (AlphanumericIdentifierToken ''true'', 10)
               (AlphanumericIdentifierToken ''Match'', 17)] 1)
         protectedStore
       = (Inr (0, False, None),
          setDynamicValue ''true'' (ExceptionConstructor ''Match'' 0 0) 0 protectedStore)
   \<and> getDynamicValue ''true'' 0
         (setDynamicValue ''true'' (ExceptionConstructor ''Match'' 0 0) 0 protectedStore)
       = Some (ExceptionConstructor ''Match'' 0 0)
   \<and> evaluate (\<lambda>e state store. (Inr (Integer 1, False), store))
         (\<lambda>p state v store. (Inr (Some [(''true'', v)]), store)) 0
         (ValueDeclaration 0 []
            [ValueBinding 4 False (ValueIdentifier 4 (AlphanumericIdentifierToken ''true'', 4))
               (Constant 11 (IntegerConstantToken ''1'' 1, 11))] 1)
         protectedStore
       = (Inr (0, False, None), setDynamicValue ''true'' (Integer 1) 0 protectedStore)
   \<and> getDynamicValue ''true'' 0 (setDynamicValue ''true'' (Integer 1) 0 protectedStore)
       = Some (Integer 1)
   \<and> evaluate compute matches 0
         (ExceptionDeclaration 0
            [DirectExceptionBinding 10 (AlphanumericIdentifierToken ''true'', 10) None] 1)
         protectedStore
       = (Inl EvaluationError, incrementValueIdentifierId ''true'' 0 protectedStore)
   \<and> evaluate compute matches 0
         (DatatypeDeclaration 0
            [DatatypeBinding 9 [] (AlphanumericIdentifierToken ''t'', 9)
               [((AlphanumericIdentifierToken ''true'', 13), None)]] None 1)
         protectedStore
       = (Inl EvaluationError, incrementValueIdentifierId ''true'' 0 protectedStore)
   \<and> getValueIdentifierId ''true'' 0 (incrementValueIdentifierId ''true'' 0 protectedStore) = 1
   \<and> getValueIdentifierId ''true'' 0 protectedStore = 0"
  by (simp add: protectedStore_lookups ptext_def Let_def ValueDeclaration_evaluate_def
      ValueBinding_compute_def setDynamicValues_def DatatypeBinding_compute_def)

subsection \<open>Simplifying what is simplified\<close>

lemma bindE_Inr: "bindE m f = Inr y \<longleftrightarrow> (\<exists>x. m = Inr x \<and> f x = Inr y)"
  by (cases m) simp_all

lemma mapE_fixed:
  assumes "\<And>x y. x \<in> set xs \<Longrightarrow> f x = Inr y \<Longrightarrow> g y = Inr y"
    and "mapE f xs = Inr ys"
  shows "mapE g ys = Inr ys"
  using assms
proof (induction xs arbitrary: ys)
  case Nil
  then show ?case by simp
next
  case (Cons x xs)
  from Cons.prems(2) obtain y ys' where y: "f x = Inr y" and ys': "mapE f xs = Inr ys'"
    and ys: "ys = y # ys'"
    by (auto split: sum.splits)
  from Cons.prems(1) [of x y] y have "g y = Inr y" by simp
  moreover have "mapE g ys' = Inr ys'"
    by (rule Cons.IH [OF _ ys']) (use Cons.prems(1) in auto)
  ultimately show ?case using ys by simp
qed

lemma mapE_results:
  assumes "mapE f xs = Inr ys" and "y \<in> set ys"
  shows "\<exists>x \<in> set xs. f x = Inr y"
  using assms
proof (induction xs arbitrary: ys)
  case Nil
  then show ?case by simp
next
  case (Cons x xs)
  from Cons.prems(1) obtain z zs where z: "f x = Inr z" and zs: "mapE f xs = Inr zs"
    and ys: "ys = z # zs"
    by (auto split: sum.splits)
  with Cons.prems(2) Cons.IH [OF zs] show ?case by auto
qed

lemma mapE_identity: "(\<And>x. x \<in> set xs \<Longrightarrow> f x = Inr x) \<Longrightarrow> mapE f xs = Inr xs"
  by (induction xs) simp_all

lemma simplifyValueBinding_fixed:
  assumes "\<forall>e e'. esimp e = Inr e' \<longrightarrow> esimp e' = Inr e'"
    and "simplifyValueBinding esimp b = Inr b'"
  shows "simplifyValueBinding esimp b' = Inr b'"
  using assms
  by (cases b) (auto simp: simplifyValueBinding_def split: sum.splits)

lemma simplifyTypeBinding_fixed:
  assumes "\<forall>t t'. tsimp t = Inr t' \<longrightarrow> tsimp t' = Inr t'"
    and "simplifyTypeBinding tsimp b = Inr b'"
  shows "simplifyTypeBinding tsimp b' = Inr b'"
  using assms
  by (cases b) (auto simp: simplifyTypeBinding_def split: sum.splits)

lemma simplifyConstructor_fixed:
  assumes "\<forall>t t'. tsimp t = Inr t' \<longrightarrow> tsimp t' = Inr t'"
    and "simplifyConstructor tsimp c = Inr c'"
  shows "simplifyConstructor tsimp c' = Inr c'"
  using assms
  by (cases c) (auto simp: simplifyConstructor_def split: sum.splits option.splits)

lemma simplifyDatatypeBinding_fixed:
  assumes "\<forall>t t'. tsimp t = Inr t' \<longrightarrow> tsimp t' = Inr t'"
    and "simplifyDatatypeBinding tsimp b = Inr b'"
  shows "simplifyDatatypeBinding tsimp b' = Inr b'"
proof (cases b)
  case (DatatypeBinding p tvs n cs)
  with assms(2) obtain cs' where cs': "mapE (simplifyConstructor tsimp) cs = Inr cs'"
    and b': "b' = DatatypeBinding p tvs n cs'"
    by (auto simp: simplifyDatatypeBinding_def split: sum.splits)
  have "mapE (simplifyConstructor tsimp) cs' = Inr cs'"
    by (rule mapE_fixed [OF _ cs']) (rule simplifyConstructor_fixed [OF assms(1)])
  with b' show ?thesis by (simp add: simplifyDatatypeBinding_def)
qed

lemma simplifyFunctionValueBinding_fixed:
  assumes "\<forall>e e'. esimp e = Inr e' \<longrightarrow> esimp e' = Inr e'"
    and "\<forall>p t. esimp (ValueIdentifier p t) = Inr (ValueIdentifier p t)"
    and "simplifyFunctionValueBinding esimp b = Inr b'"
  shows "simplifyValueBinding esimp b' = Inr b'"
  using assms
  by (cases b)
    (auto simp: simplifyFunctionValueBinding_def simplifyValueBinding_def Let_def
      split: sum.splits option.splits list.splits prod.splits if_splits)

lemma simplify_fixed:
  "simplify esimp tsimp d = Inr d'
    \<Longrightarrow> \<forall>e e'. esimp e = Inr e' \<longrightarrow> esimp e' = Inr e'
    \<Longrightarrow> \<forall>p t. esimp (ValueIdentifier p t) = Inr (ValueIdentifier p t)
    \<Longrightarrow> \<forall>t t'. tsimp t = Inr t' \<longrightarrow> tsimp t' = Inr t'
    \<Longrightarrow> simplify esimp tsimp d' = Inr d'"
proof (induction esimp tsimp d arbitrary: d' rule: simplify.induct)
  case (1 esimp tsimp p tvs bs i)
  then obtain bs' where bs': "mapE (simplifyValueBinding esimp) bs = Inr bs'"
    and d': "d' = ValueDeclaration p tvs bs' i"
    by (auto split: sum.splits)
  have "mapE (simplifyValueBinding esimp) bs' = Inr bs'"
    by (rule mapE_fixed [OF _ bs']) (rule simplifyValueBinding_fixed [OF "1.prems"(2)])
  with d' show ?case by simp
next
  case (2 esimp tsimp p bs i)
  then obtain bs' where bs': "mapE (simplifyTypeBinding tsimp) bs = Inr bs'"
    and d': "d' = TypeDeclaration p bs' i"
    by (auto split: sum.splits)
  have "mapE (simplifyTypeBinding tsimp) bs' = Inr bs'"
    by (rule mapE_fixed [OF _ bs']) (rule simplifyTypeBinding_fixed [OF "2.prems"(4)])
  with d' show ?case by simp
next
  case (3 esimp tsimp p bs tb i)
  then obtain bs' where bs': "mapE (simplifyDatatypeBinding tsimp) bs = Inr bs'"
    and d': "d' = DatatypeDeclaration p bs' None i"
    by (auto split: sum.splits)
  have "mapE (simplifyDatatypeBinding tsimp) bs' = Inr bs'"
    by (rule mapE_fixed [OF _ bs']) (rule simplifyDatatypeBinding_fixed [OF "3.prems"(4)])
  with d' show ?case by simp
next
  case (5 esimp tsimp p bs tb decl i)
  from "5.prems"(1) obtain bs' decl' where
    bs': "mapE (simplifyDatatypeBinding tsimp) bs = Inr bs'"
    and decl': "simplify esimp tsimp decl = Inr decl'"
    and tb: "tb = None"
    and d': "d' = AbstypeDeclaration p bs' tb decl' i"
    by (auto split: sum.splits if_splits)
  have "mapE (simplifyDatatypeBinding tsimp) bs' = Inr bs'"
    by (rule mapE_fixed [OF _ bs']) (rule simplifyDatatypeBinding_fixed [OF "5.prems"(4)])
  moreover have "simplify esimp tsimp decl' = Inr decl'"
    by (rule "5.IH" [OF bs' decl' "5.prems"(2,3,4)])
  ultimately show ?case using d' tb by simp
next
  case (7 esimp tsimp p decl body i)
  from "7.prems"(1) obtain decl' body' where
    decl': "simplify esimp tsimp decl = Inr decl'"
    and body': "simplify esimp tsimp body = Inr body'"
    and d': "d' = LocalDeclaration p decl' body' i"
    by (auto split: sum.splits)
  from "7.IH"(1) [OF decl' "7.prems"(2,3,4)] "7.IH"(2) [OF decl' body' "7.prems"(2,3,4)] d'
  show ?case by simp
next
  case (10 esimp tsimp p ds i)
  from "10.prems"(1) obtain ds' where
    ds': "mapE (simplify esimp tsimp) ds = Inr ds'"
    and d': "d' = SequentialDeclaration p ds' i"
    by (auto split: sum.splits)
  have "mapE (simplify esimp tsimp) ds' = Inr ds'"
    by (rule mapE_fixed [OF _ ds']) (rule "10.IH" [OF _ _ "10.prems"(2,3,4)])
  with d' show ?case by simp
next
  case (11 esimp tsimp p tvs bs i)
  then obtain bs' where bs': "mapE (simplifyFunctionValueBinding esimp) bs = Inr bs'"
    and d': "d' = ValueDeclaration p tvs bs' i"
    by (auto split: sum.splits)
  have "mapE (simplifyValueBinding esimp) bs' = Inr bs'"
    by (rule mapE_fixed [OF _ bs'])
      (rule simplifyFunctionValueBinding_fixed [OF "11.prems"(2,3)])
  with d' show ?case by simp
qed auto

lemma mapE_entries_identity:
  "(\<And>label e. (label, e) \<in> set entries \<Longrightarrow> f e = Inr e)
    \<Longrightarrow> mapE (\<lambda>(label, e). bindE (f e) (\<lambda>e'. Inr (label, e'))) entries = Inr entries"
  by (rule mapE_identity) auto

lemma mapE_rules_identity:
  "(\<And>pat e. (pat, e) \<in> set rules \<Longrightarrow> f pat = Inr pat \<and> f e = Inr e)
    \<Longrightarrow> mapE (\<lambda>(pat, e). bindE (f pat) (\<lambda>pat'. bindE (f e) (\<lambda>e'. Inr (pat', e')))) rules
        = Inr rules"
  by (rule mapE_identity) auto

lemma namedIdentifier_fixed [simp]:
  "simplifyFuel k (namedIdentifier p name) = Inr (namedIdentifier p name)"
  by (simp add: namedIdentifier_def)

lemma tupleRecord_fixed:
  assumes "\<And>e. e \<in> set es \<Longrightarrow> simplifyFuel k e = Inr e"
  shows "simplifyFuel k (tupleRecord p es) = Inr (tupleRecord p es)"
proof -
  have "mapE (\<lambda>(label, e). bindE (simplifyFuel k e) (\<lambda>e'. Inr (label, e')))
      (zip (map natToString [1..<Suc (length es)]) es)
    = Inr (zip (map natToString [1..<Suc (length es)]) es)"
    by (rule mapE_entries_identity) (auto dest: set_zip_rightD intro: assms)
  then show ?thesis by (simp add: tupleRecord_def)
qed

lemma consExpression_fixed:
  assumes "simplifyFuel k e = Inr e" and "simplifyFuel k rest = Inr rest"
  shows "simplifyFuel k (consExpression p e rest) = Inr (consExpression p e rest)"
proof -
  have "simplifyFuel k (tupleRecord p [e, rest]) = Inr (tupleRecord p [e, rest])"
    by (rule tupleRecord_fixed) (use assms in auto)
  then show ?thesis by (simp add: consExpression_def)
qed

lemma listCons_fixed:
  assumes "\<And>e. e \<in> set es \<Longrightarrow> simplifyFuel k e = Inr e"
  shows "simplifyFuel k (foldr (consExpression p) es (namedIdentifier p ''nil''))
    = Inr (foldr (consExpression p) es (namedIdentifier p ''nil''))"
  using assms by (induction es) (simp_all add: consExpression_fixed)

lemma sequenceCases_fixed:
  assumes "\<And>e. e \<in> set es \<Longrightarrow> simplifyFuel k e = Inr e"
  shows "simplifyFuel k (sequenceCases p es) = Inr (sequenceCases p es)"
  using assms
proof (induction p es rule: sequenceCases.induct)
  case (1 p)
  show ?case by (simp add: sequenceCases.simps)
next
  case (2 p e)
  then show ?case by (simp add: sequenceCases.simps)
next
  case (3 p e e2 es)
  then show ?case by (simp add: sequenceCases.simps)
qed

lemma conditionalCase_fixed:
  assumes "simplifyFuel k c = Inr c" and "simplifyFuel k t = Inr t"
    and "simplifyFuel k e = Inr e"
  shows "simplifyFuel k (conditionalCase p c t e) = Inr (conditionalCase p c t e)"
  using assms by (simp add: conditionalCase_def)

lemma whileLoop_fixed:
  assumes c: "simplifyFuel k c = Inr c" and b: "simplifyFuel k body = Inr body"
  shows "simplifyFuel (Suc k) (whileLoop p c body) = Inr (whileLoop p c body)"
proof -
  have unit: "simplifyFuel n (tupleRecord p []) = Inr (tupleRecord p [])" for n
    by (rule tupleRecord_fixed) simp
  have call: "simplifyFuel n (FunctionApplication p (namedIdentifier p ''loop'') (tupleRecord p []))
      = Inr (FunctionApplication p (namedIdentifier p ''loop'') (tupleRecord p []))" for n
    by (simp add: unit)
  have sequence: "simplifyFuel k (sequenceCases p
        [body, FunctionApplication p (namedIdentifier p ''loop'') (tupleRecord p [])])
      = Inr (sequenceCases p
        [body, FunctionApplication p (namedIdentifier p ''loop'') (tupleRecord p [])])"
    by (rule sequenceCases_fixed) (use b call in auto)
  have conditional: "simplifyFuel k (conditionalCase p c
        (sequenceCases p
           [body, FunctionApplication p (namedIdentifier p ''loop'') (tupleRecord p [])])
        (tupleRecord p []))
      = Inr (conditionalCase p c
        (sequenceCases p
           [body, FunctionApplication p (namedIdentifier p ''loop'') (tupleRecord p [])])
        (tupleRecord p []))"
    by (rule conditionalCase_fixed [OF c sequence unit])
  show ?thesis
    unfolding whileLoop_def
    by (simp add: simplifyValueBinding_def unit call conditional)
qed

lemma simplifyFuel_fixed:
  "simplifyFuel k e = Inr e' \<Longrightarrow> simplifyFuel k e' = Inr e'"
  "simplifyMatch k m = Inr m' \<Longrightarrow> simplifyMatch k m' = Inr m'"
proof (induction k e and k m arbitrary: e' and m' rule: simplifyFuel_simplifyMatch.induct)
  case (5 k p t ty pat)
  from "5.prems" obtain pat' where a: "simplifyFuel k pat = Inr pat'"
    and e': "e' = LayeredPattern p t ty pat'"
    by (auto simp: bindE_Inr)
  from "5.IH" [OF a] show ?case by (simp add: e')
next
  case (6 k p es)
  from "6.prems" obtain es' where es': "mapE (simplifyFuel k) es = Inr es'"
    and e': "e' = tupleRecord p es'"
    by (auto simp: bindE_Inr)
  have "simplifyFuel k y = Inr y" if "y \<in> set es'" for y
    using mapE_results [OF es' that] "6.IH" by auto
  with e' show ?case by (simp add: tupleRecord_fixed)
next
  case (7 k p es)
  from "7.prems" obtain es' where es': "mapE (simplifyFuel k) es = Inr es'"
    and e': "e' = foldr (consExpression p) es' (namedIdentifier p ''nil'')"
    by (auto simp: bindE_Inr)
  have "simplifyFuel k y = Inr y" if "y \<in> set es'" for y
    using mapE_results [OF es' that] "7.IH" by auto
  with e' show ?case by (simp add: listCons_fixed)
next
  case (8 k p es)
  from "8.prems" obtain es' where es': "mapE (simplifyFuel k) es = Inr es'"
    and e': "e' = sequenceCases p es'"
    by (auto simp: bindE_Inr)
  have "simplifyFuel k y = Inr y" if "y \<in> set es'" for y
    using mapE_results [OF es' that] "8.IH" by auto
  with e' show ?case by (simp add: sequenceCases_fixed)
next
  case (9 k p isComplete entries)
  let ?f = "\<lambda>(label, e). bindE (simplifyFuel k e) (\<lambda>e'. Inr (label, e'))"
  from "9.prems" obtain entries' where es': "mapE ?f entries = Inr entries'"
    and e': "e' = Record p isComplete entries'"
    by (auto simp: bindE_Inr)
  have "simplifyFuel k y = Inr y" if "(label, y) \<in> set entries'" for label y
  proof -
    from mapE_results [OF es' that] obtain x where x: "x \<in> set entries"
      and fx: "?f x = Inr (label, y)"
      by blast
    obtain l e where xe: "x = (l, e)" by (cases x)
    from fx xe have "simplifyFuel k e = Inr y" by (auto simp: bindE_Inr)
    with "9.IH" x xe show ?thesis by blast
  qed
  then have "mapE ?f entries' = Inr entries'"
    by (intro mapE_entries_identity) auto
  with e' show ?case by simp
next
  case (10 k p e t)
  from "10.prems" obtain e2 where a: "simplifyFuel k e = Inr e2"
    and e': "e' = TypedExpression p e2 t"
    by (auto simp: bindE_Inr)
  from "10.IH" [OF a] show ?case by (simp add: e')
next
  case (11 k p f a)
  from "11.prems" obtain f2 a2 where f2: "simplifyFuel k f = Inr f2"
    and a2: "simplifyFuel k a = Inr a2" and e': "e' = FunctionApplication p f2 a2"
    by (auto simp: bindE_Inr)
  from "11.IH"(1) [OF f2] "11.IH"(2) [OF f2 a2] show ?case by (simp add: e')
next
  case (12 k p e m)
  from "12.prems" obtain e2 m2 where e2: "simplifyFuel k e = Inr e2"
    and m2: "simplifyMatch k m = Inr m2" and e': "e' = HandleException p e2 m2"
    by (auto simp: bindE_Inr)
  from "12.IH"(1) [OF e2] "12.IH"(2) [OF e2 m2] show ?case by (simp add: e')
next
  case (13 k p e)
  from "13.prems" obtain e2 where a: "simplifyFuel k e = Inr e2"
    and e': "e' = RaiseException p e2"
    by (auto simp: bindE_Inr)
  from "13.IH" [OF a] show ?case by (simp add: e')
next
  case (14 k p m)
  from "14.prems" obtain m2 where a: "simplifyMatch k m = Inr m2"
    and e': "e' = Lambda p m2"
    by (auto simp: bindE_Inr)
  from "14.IH" [OF a] show ?case by (simp add: e')
next
  case (15 k p e m)
  from "15.prems" obtain e2 m2 where e2: "simplifyFuel k e = Inr e2"
    and m2: "simplifyMatch k m = Inr m2" and e': "e' = CaseAnalysis p e2 m2"
    by (auto simp: bindE_Inr)
  from "15.IH"(1) [OF e2] "15.IH"(2) [OF e2 m2] show ?case by (simp add: e')
next
  case (16 k p c t e)
  from "16.prems" obtain c2 t2 e2 where c2: "simplifyFuel k c = Inr c2"
    and t2: "simplifyFuel k t = Inr t2" and e2: "simplifyFuel k e = Inr e2"
    and e': "e' = conditionalCase p c2 t2 e2"
    by (auto simp: bindE_Inr)
  from "16.IH"(1) [OF c2] "16.IH"(2) [OF c2 t2] "16.IH"(3) [OF c2 t2 e2]
  show ?case by (simp add: e' conditionalCase_fixed)
next
  case (17 k p a b)
  from "17.prems" obtain a2 b2 where a2: "simplifyFuel k a = Inr a2"
    and b2: "simplifyFuel k b = Inr b2"
    and e': "e' = conditionalCase p a2 b2 (namedIdentifier p ''false'')"
    by (auto simp: bindE_Inr)
  from "17.IH"(1) [OF a2] "17.IH"(2) [OF a2 b2]
  show ?case by (simp add: e' conditionalCase_fixed)
next
  case (18 k p a b)
  from "18.prems" obtain a2 b2 where a2: "simplifyFuel k a = Inr a2"
    and b2: "simplifyFuel k b = Inr b2"
    and e': "e' = conditionalCase p a2 (namedIdentifier p ''true'') b2"
    by (auto simp: bindE_Inr)
  from "18.IH"(1) [OF a2] "18.IH"(2) [OF a2 b2]
  show ?case by (simp add: e' conditionalCase_fixed)
next
  case (20 k p c body)
  from "20.prems" obtain c2 b2 where c2: "simplifyFuel k c = Inr c2"
    and b2: "simplifyFuel k body = Inr b2" and e': "e' = whileLoop p c2 b2"
    by (auto simp: bindE_Inr)
  from "20.IH"(1) [OF c2] "20.IH"(2) [OF c2 b2]
  show ?case by (simp add: e' whileLoop_fixed)
next
  case (22 k p d e)
  from "22.prems" obtain d2 e2 where
    d2: "simplify (\<lambda>x. simplifyFuel k x) simplifyType d = Inr d2"
    and e2: "simplifyFuel (Suc k) e = Inr e2"
    and e': "e' = LocalDeclarationExpression p d2 e2"
    by (auto simp: bindE_Inr)
  have "simplify (\<lambda>x. simplifyFuel k x) simplifyType d2 = Inr d2"
  proof (rule simplify_fixed [OF d2])
    show "\<forall>e e'. simplifyFuel k e = Inr e' \<longrightarrow> simplifyFuel k e' = Inr e'"
      using "22.IH"(1) by blast
    show "\<forall>p t. simplifyFuel k (ValueIdentifier p t) = Inr (ValueIdentifier p t)"
      by simp
    show "\<forall>t t'. simplifyType t = Inr t' \<longrightarrow> simplifyType t' = Inr t'"
      by (simp add: simplifyType_def)
  qed
  moreover from "22.IH"(2) [OF d2 e2] have "simplifyFuel (Suc k) e2 = Inr e2" .
  ultimately show ?case by (simp add: e')
next
  case (23 k p rules)
  let ?f = "\<lambda>(pat, e). bindE (simplifyFuel k pat)
      (\<lambda>pat'. bindE (simplifyFuel k e) (\<lambda>e'. Inr (pat', e')))"
  from "23.prems" obtain rules' where rs': "mapE ?f rules = Inr rules'"
    and m': "m' = Match p rules'"
    by (auto simp: bindE_Inr)
  have "simplifyFuel k pat' = Inr pat' \<and> simplifyFuel k y = Inr y"
    if "(pat', y) \<in> set rules'" for pat' y
  proof -
    from mapE_results [OF rs' that] obtain x where x: "x \<in> set rules"
      and fx: "?f x = Inr (pat', y)"
      by blast
    obtain pat e where xe: "x = (pat, e)" by (cases x)
    from fx xe have 1: "simplifyFuel k pat = Inr pat'" and 2: "simplifyFuel k e = Inr y"
      by (auto simp: bindE_Inr)
    from "23.IH"(1) [OF x xe [symmetric] 1] "23.IH"(2) [OF x xe [symmetric] 1 2]
    show ?thesis by simp
  qed
  then have "mapE ?f rules' = Inr rules'"
    by (intro mapE_rules_identity) auto
  with m' show ?case by simp
qed simp_all

subsection \<open>The nesting depth does not grow\<close>

lemma maxList_simps [simp]: "maxList [] = 0" "maxList (n # ns) = max n (maxList ns)"
  by (simp_all add: maxList_def)

lemma maxList_le: "maxList ns \<le> n \<longleftrightarrow> (\<forall>m \<in> set ns. m \<le> n)"
  by (induction ns) auto

lemma maxList_member: "m \<in> set ns \<Longrightarrow> m \<le> maxList ns"
  using maxList_le [of ns "maxList ns"] by simp

lemma maxList_mono:
  "(\<And>y. y \<in> set ys \<Longrightarrow> \<exists>x \<in> set xs. h y \<le> g x)
    \<Longrightarrow> maxList (map h ys) \<le> maxList (map g xs)"
proof -
  assume a: "\<And>y. y \<in> set ys \<Longrightarrow> \<exists>x \<in> set xs. h y \<le> g x"
  have "h y \<le> maxList (map g xs)" if "y \<in> set ys" for y
  proof -
    from a [OF that] obtain x where "x \<in> set xs" and "h y \<le> g x" by blast
    with maxList_member [of "g x" "map g xs"] show ?thesis by auto
  qed
  then show ?thesis by (auto simp: maxList_le)
qed

lemma mapE_depth:
  assumes "\<And>x y. x \<in> set xs \<Longrightarrow> f x = Inr y \<Longrightarrow> h y \<le> g x"
    and "mapE f xs = Inr ys"
  shows "maxList (map h ys) \<le> maxList (map g xs)"
proof (rule maxList_mono)
  fix y assume "y \<in> set ys"
  from mapE_results [OF assms(2) this] obtain x where "x \<in> set xs" and "f x = Inr y" by blast
  with assms(1) show "\<exists>x \<in> set xs. h y \<le> g x" by blast
qed

lemma letDepth_namedIdentifier [simp]: "letDepth (namedIdentifier p name) = 0"
  by (simp add: namedIdentifier_def)

lemma letDepth_argIdentifier [simp]: "letDepth (argIdentifier i) = 0"
  by (simp add: argIdentifier_def)

lemma map_snd_zip_depth:
  "length ls = length es \<Longrightarrow> map (\<lambda>(label, e). letDepth e) (zip ls es) = map letDepth es"
  by (induction ls es rule: list_induct2) simp_all

lemma letDepth_tupleRecord [simp]: "letDepth (tupleRecord p es) = maxList (map letDepth es)"
  using map_snd_zip_depth [of "map natToString [1..<Suc (length es)]" es]
  by (simp add: tupleRecord_def del: upt_Suc)

lemma letDepth_consExpression [simp]:
  "letDepth (consExpression p e rest) = max (letDepth e) (letDepth rest)"
  by (simp add: consExpression_def)

lemma letDepth_listCons [simp]:
  "letDepth (foldr (consExpression p) es (namedIdentifier p ''nil'')) = maxList (map letDepth es)"
  by (induction es) simp_all

lemma letDepth_sequenceCases [simp]:
  "letDepth (sequenceCases p es) = maxList (map letDepth es)"
  by (induction p es rule: sequenceCases.induct) (simp_all add: sequenceCases.simps)

lemma letDepth_conditionalCase [simp]:
  "letDepth (conditionalCase p c t e) = max (letDepth c) (max (letDepth t) (letDepth e))"
  by (simp add: conditionalCase_def)

lemma letDepth_whileLoop [simp]:
  "letDepth (whileLoop p c body) = Suc (max (letDepth c) (letDepth body))"
  by (simp add: whileLoop_def)

lemma letDepth_wrapLambdas [simp]: "letDepth (wrapLambdas n e) = letDepth e"
  by (induction n arbitrary: e) simp_all

lemma letDepth_clauseMatch:
  "max (letDepth (fst (clauseMatch c))) (letDepth (snd (clauseMatch c)))
    \<le> (case c of (pats, ty, body) \<Rightarrow> max (maxList (map letDepth pats)) (letDepth body))"
proof -
  obtain pats ty body where c: "c = (pats, ty, body)" by (cases c)
  have "letDepth (pats ! 0) \<le> maxList (map letDepth pats)" if "length pats = 1"
    using that by (cases pats) simp_all
  then show ?thesis
    by (auto simp: c clauseMatch_def split: option.splits)
qed

lemma matchDepth_clauses:
  "matchDepth (Match p (map clauseMatch clauses))
    \<le> functionValueBindingDepth (FunctionValueBinding q clauses name)"
proof -
  have "maxList (map (\<lambda>(pat, e). max (letDepth pat) (letDepth e)) (map clauseMatch clauses))
      \<le> maxList (map (\<lambda>(pats, ty, body). max (maxList (map letDepth pats)) (letDepth body))
            clauses)"
  proof (rule maxList_mono)
    fix y assume "y \<in> set (map clauseMatch clauses)"
    then obtain c where c: "c \<in> set clauses" and y: "y = clauseMatch c" by auto
    from letDepth_clauseMatch [of c] y
    have "(case y of (pat, e) \<Rightarrow> max (letDepth pat) (letDepth e))
        \<le> (case c of (pats, ty, body) \<Rightarrow> max (maxList (map letDepth pats)) (letDepth body))"
      by (simp add: case_prod_beta)
    with c show "\<exists>x \<in> set clauses.
        (case y of (pat, e) \<Rightarrow> max (letDepth pat) (letDepth e))
        \<le> (case x of (pats, ty, body) \<Rightarrow> max (maxList (map letDepth pats)) (letDepth body))"
      by blast
  qed
  then show ?thesis by simp
qed

lemma simplifyFunctionValueBinding_depth:
  assumes n: "\<forall>x y. esimp x = Inr y \<longrightarrow> letDepth y \<le> letDepth x"
    and s: "simplifyFunctionValueBinding esimp b = Inr b'"
  shows "valueBindingDepth b' \<le> functionValueBindingDepth b"
proof (cases b)
  case (FunctionValueBinding q clauses name)
  from s FunctionValueBinding obtain np nt first others where
    name: "name = Some (np, nt)" and clauses: "clauses = first # others"
    by (auto simp: simplifyFunctionValueBinding_def split: option.splits list.splits)
  let ?arr = "map argIdentifier [0..<length (fst first)]"
  let ?pat = "if length ?arr \<noteq> 1 then esimp (Tuple (- 1) ?arr) else Inr (?arr ! 0)"
  from s FunctionValueBinding name clauses obtain pat expr where
    pat: "?pat = Inr pat"
    and expr: "esimp (wrapLambdas (length (fst first))
        (CaseAnalysis (- 1) pat (Match (- 1) (map clauseMatch clauses)))) = Inr expr"
    and b': "b' = ValueBinding q True (ValueIdentifier np nt) expr"
    by (auto simp: simplifyFunctionValueBinding_def Let_def split: sum.splits)
  have arr: "maxList (map letDepth (map argIdentifier xs)) = 0" for xs
    by (induction xs) simp_all
  have p0: "letDepth pat = 0"
  proof (cases "length ?arr \<noteq> 1")
    case True
    with pat have "esimp (Tuple (- 1) ?arr) = Inr pat" by simp
    with n have "letDepth pat \<le> letDepth (Tuple (- 1) ?arr)" by blast
    with arr show ?thesis by simp
  next
    case False
    with pat have "pat = ?arr ! 0" by simp
    moreover from False have "?arr ! 0 = argIdentifier 0" by simp
    ultimately show ?thesis by simp
  qed
  from n expr have "letDepth expr \<le> letDepth (wrapLambdas (length (fst first))
        (CaseAnalysis (- 1) pat (Match (- 1) (map clauseMatch clauses))))"
    by blast
  with p0 matchDepth_clauses [of "- 1" clauses q name]
  have "letDepth expr \<le> functionValueBindingDepth (FunctionValueBinding q clauses name)"
    by simp
  with b' FunctionValueBinding show ?thesis by simp
qed

lemma simplifyValueBinding_depth:
  assumes "\<forall>x y. esimp x = Inr y \<longrightarrow> letDepth y \<le> letDepth x"
    and "simplifyValueBinding esimp b = Inr b'"
  shows "valueBindingDepth b' \<le> valueBindingDepth b"
proof (cases b)
  case (ValueBinding p r pat e)
  with assms(2) obtain pat' e2 where pat': "esimp pat = Inr pat'" and e2: "esimp e = Inr e2"
    and b': "b' = ValueBinding p r pat' e2"
    by (auto simp: simplifyValueBinding_def split: sum.splits)
  from assms(1) pat' e2 have "letDepth pat' \<le> letDepth pat" "letDepth e2 \<le> letDepth e"
    by blast+
  with b' ValueBinding show ?thesis by auto
qed

lemma simplify_depth:
  "simplify esimp tsimp d = Inr d'
    \<Longrightarrow> \<forall>x y. esimp x = Inr y \<longrightarrow> letDepth y \<le> letDepth x
    \<Longrightarrow> declarationDepth d' \<le> declarationDepth d"
proof (induction esimp tsimp d arbitrary: d' rule: simplify.induct)
  case (1 esimp tsimp p tvs bs i)
  then obtain bs' where bs': "mapE (simplifyValueBinding esimp) bs = Inr bs'"
    and d': "d' = ValueDeclaration p tvs bs' i"
    by (auto split: sum.splits)
  have "maxList (map valueBindingDepth bs') \<le> maxList (map valueBindingDepth bs)"
    by (rule mapE_depth [OF _ bs']) (rule simplifyValueBinding_depth [OF "1.prems"(2)])
  with d' show ?case by simp
next
  case (5 esimp tsimp p bs tb decl i)
  from "5.prems"(1) obtain bs' decl' where
    bs': "mapE (simplifyDatatypeBinding tsimp) bs = Inr bs'"
    and decl': "simplify esimp tsimp decl = Inr decl'"
    and d': "d' = AbstypeDeclaration p bs' tb decl' i"
    by (auto split: sum.splits if_splits)
  from "5.IH" [OF bs' decl' "5.prems"(2)] d' show ?case by simp
next
  case (7 esimp tsimp p decl body i)
  from "7.prems"(1) obtain decl' body' where
    decl': "simplify esimp tsimp decl = Inr decl'"
    and body': "simplify esimp tsimp body = Inr body'"
    and d': "d' = LocalDeclaration p decl' body' i"
    by (auto split: sum.splits)
  from "7.IH"(1) [OF decl' "7.prems"(2)] "7.IH"(2) [OF decl' body' "7.prems"(2)] d'
  show ?case by auto
next
  case (10 esimp tsimp p ds i)
  from "10.prems"(1) obtain ds' where
    ds': "mapE (simplify esimp tsimp) ds = Inr ds'"
    and d': "d' = SequentialDeclaration p ds' i"
    by (auto split: sum.splits)
  have "maxList (map declarationDepth ds') \<le> maxList (map declarationDepth ds)"
    by (rule mapE_depth [OF _ ds']) (rule "10.IH" [OF _ _ "10.prems"(2)])
  with d' show ?case by simp
next
  case (11 esimp tsimp p tvs bs i)
  then obtain bs' where bs': "mapE (simplifyFunctionValueBinding esimp) bs = Inr bs'"
    and d': "d' = ValueDeclaration p tvs bs' i"
    by (auto split: sum.splits)
  have "maxList (map valueBindingDepth bs') \<le> maxList (map functionValueBindingDepth bs)"
    by (rule mapE_depth [OF _ bs']) (rule simplifyFunctionValueBinding_depth [OF "11.prems"(2)])
  with d' show ?case by simp
qed (auto split: sum.splits)

lemma simplifyFuel_depth:
  "simplifyFuel k e = Inr e' \<Longrightarrow> letDepth e' \<le> letDepth e"
  "simplifyMatch k m = Inr m' \<Longrightarrow> matchDepth m' \<le> matchDepth m"
proof (induction k e and k m arbitrary: e' and m' rule: simplifyFuel_simplifyMatch.induct)
  case (5 k p t ty pat)
  from "5.prems" obtain pat' where a: "simplifyFuel k pat = Inr pat'"
    and e': "e' = LayeredPattern p t ty pat'"
    by (auto simp: bindE_Inr)
  from "5.IH" [OF a] show ?case by (simp add: e')
next
  case (6 k p es)
  from "6.prems" obtain es' where es': "mapE (simplifyFuel k) es = Inr es'"
    and e': "e' = tupleRecord p es'"
    by (auto simp: bindE_Inr)
  have "maxList (map letDepth es') \<le> maxList (map letDepth es)"
    by (rule mapE_depth [OF _ es']) (rule "6.IH")
  with e' show ?case by simp
next
  case (7 k p es)
  from "7.prems" obtain es' where es': "mapE (simplifyFuel k) es = Inr es'"
    and e': "e' = foldr (consExpression p) es' (namedIdentifier p ''nil'')"
    by (auto simp: bindE_Inr)
  have "maxList (map letDepth es') \<le> maxList (map letDepth es)"
    by (rule mapE_depth [OF _ es']) (rule "7.IH")
  with e' show ?case by simp
next
  case (8 k p es)
  from "8.prems" obtain es' where es': "mapE (simplifyFuel k) es = Inr es'"
    and e': "e' = sequenceCases p es'"
    by (auto simp: bindE_Inr)
  have "maxList (map letDepth es') \<le> maxList (map letDepth es)"
    by (rule mapE_depth [OF _ es']) (rule "8.IH")
  with e' show ?case by simp
next
  case (9 k p isComplete entries)
  let ?f = "\<lambda>(label, e). bindE (simplifyFuel k e) (\<lambda>e'. Inr (label, e'))"
  from "9.prems" obtain entries' where es': "mapE ?f entries = Inr entries'"
    and e': "e' = Record p isComplete entries'"
    by (auto simp: bindE_Inr)
  have "maxList (map (\<lambda>(label, e). letDepth e) entries')
      \<le> maxList (map (\<lambda>(label, e). letDepth e) entries)"
  proof (rule mapE_depth [OF _ es'])
    fix x y assume x: "x \<in> set entries" and fx: "?f x = Inr y"
    obtain l e where xe: "x = (l, e)" by (cases x)
    from fx xe obtain e2 where e2: "simplifyFuel k e = Inr e2" and y: "y = (l, e2)"
      by (auto simp: bindE_Inr)
    from "9.IH" [OF x xe [symmetric] e2] xe y
    show "(case y of (label, e) \<Rightarrow> letDepth e) \<le> (case x of (label, e) \<Rightarrow> letDepth e)"
      by simp
  qed
  with e' show ?case by simp
next
  case (10 k p e t)
  from "10.prems" obtain e2 where a: "simplifyFuel k e = Inr e2"
    and e': "e' = TypedExpression p e2 t"
    by (auto simp: bindE_Inr)
  from "10.IH" [OF a] show ?case by (simp add: e')
next
  case (11 k p f a)
  from "11.prems" obtain f2 a2 where f2: "simplifyFuel k f = Inr f2"
    and a2: "simplifyFuel k a = Inr a2" and e': "e' = FunctionApplication p f2 a2"
    by (auto simp: bindE_Inr)
  from "11.IH"(1) [OF f2] "11.IH"(2) [OF f2 a2] show ?case by (auto simp: e')
next
  case (12 k p e m)
  from "12.prems" obtain e2 m2 where e2: "simplifyFuel k e = Inr e2"
    and m2: "simplifyMatch k m = Inr m2" and e': "e' = HandleException p e2 m2"
    by (auto simp: bindE_Inr)
  from "12.IH"(1) [OF e2] "12.IH"(2) [OF e2 m2] show ?case by (auto simp: e')
next
  case (13 k p e)
  from "13.prems" obtain e2 where a: "simplifyFuel k e = Inr e2"
    and e': "e' = RaiseException p e2"
    by (auto simp: bindE_Inr)
  from "13.IH" [OF a] show ?case by (simp add: e')
next
  case (14 k p m)
  from "14.prems" obtain m2 where a: "simplifyMatch k m = Inr m2"
    and e': "e' = Lambda p m2"
    by (auto simp: bindE_Inr)
  from "14.IH" [OF a] show ?case by (simp add: e')
next
  case (15 k p e m)
  from "15.prems" obtain e2 m2 where e2: "simplifyFuel k e = Inr e2"
    and m2: "simplifyMatch k m = Inr m2" and e': "e' = CaseAnalysis p e2 m2"
    by (auto simp: bindE_Inr)
  from "15.IH"(1) [OF e2] "15.IH"(2) [OF e2 m2] show ?case by (auto simp: e')
next
  case (16 k p c t e)
  from "16.prems" obtain c2 t2 e2 where c2: "simplifyFuel k c = Inr c2"
    and t2: "simplifyFuel k t = Inr t2" and e2: "simplifyFuel k e = Inr e2"
    and e': "e' = conditionalCase p c2 t2 e2"
    by (auto simp: bindE_Inr)
  from "16.IH"(1) [OF c2] "16.IH"(2) [OF c2 t2] "16.IH"(3) [OF c2 t2 e2]
  show ?case by (auto simp: e')
next
  case (17 k p a b)
  from "17.prems" obtain a2 b2 where a2: "simplifyFuel k a = Inr a2"
    and b2: "simplifyFuel k b = Inr b2"
    and e': "e' = conditionalCase p a2 b2 (namedIdentifier p ''false'')"
    by (auto simp: bindE_Inr)
  from "17.IH"(1) [OF a2] "17.IH"(2) [OF a2 b2] show ?case by (auto simp: e')
next
  case (18 k p a b)
  from "18.prems" obtain a2 b2 where a2: "simplifyFuel k a = Inr a2"
    and b2: "simplifyFuel k b = Inr b2"
    and e': "e' = conditionalCase p a2 (namedIdentifier p ''true'') b2"
    by (auto simp: bindE_Inr)
  from "18.IH"(1) [OF a2] "18.IH"(2) [OF a2 b2] show ?case by (auto simp: e')
next
  case (20 k p c body)
  from "20.prems" obtain c2 b2 where c2: "simplifyFuel k c = Inr c2"
    and b2: "simplifyFuel k body = Inr b2" and e': "e' = whileLoop p c2 b2"
    by (auto simp: bindE_Inr)
  from "20.IH"(1) [OF c2] "20.IH"(2) [OF c2 b2] show ?case by (auto simp: e')
next
  case (22 k p d e)
  from "22.prems" obtain d2 e2 where
    d2: "simplify (\<lambda>x. simplifyFuel k x) simplifyType d = Inr d2"
    and e2: "simplifyFuel (Suc k) e = Inr e2"
    and e': "e' = LocalDeclarationExpression p d2 e2"
    by (auto simp: bindE_Inr)
  have "declarationDepth d2 \<le> declarationDepth d"
    by (rule simplify_depth [OF d2]) (use "22.IH"(1) in blast)
  with "22.IH"(2) [OF d2 e2] show ?case by (auto simp: e')
next
  case (23 k p rules)
  let ?f = "\<lambda>(pat, e). bindE (simplifyFuel k pat)
      (\<lambda>pat'. bindE (simplifyFuel k e) (\<lambda>e'. Inr (pat', e')))"
  from "23.prems" obtain rules' where rs': "mapE ?f rules = Inr rules'"
    and m': "m' = Match p rules'"
    by (auto simp: bindE_Inr)
  have "maxList (map (\<lambda>(pat, e). max (letDepth pat) (letDepth e)) rules')
      \<le> maxList (map (\<lambda>(pat, e). max (letDepth pat) (letDepth e)) rules)"
  proof (rule mapE_depth [OF _ rs'])
    fix x y assume x: "x \<in> set rules" and fx: "?f x = Inr y"
    obtain pat e where xe: "x = (pat, e)" by (cases x)
    from fx xe obtain pat2 e2 where 1: "simplifyFuel k pat = Inr pat2"
      and 2: "simplifyFuel k e = Inr e2" and y: "y = (pat2, e2)"
      by (auto simp: bindE_Inr)
    from "23.IH"(1) [OF x xe [symmetric] 1] "23.IH"(2) [OF x xe [symmetric] 1 2] xe y
    show "(case y of (pat, e) \<Rightarrow> max (letDepth pat) (letDepth e))
        \<le> (case x of (pat, e) \<Rightarrow> max (letDepth pat) (letDepth e))"
      by auto
  qed
  with m' show ?case by simp
qed simp_all

subsection \<open>As deep as the expression is, is deep enough\<close>

lemma simplifyFunctionValueBinding_agree:
  assumes a: "\<forall>x. letDepth x \<le> n \<longrightarrow> esimp1 x = esimp2 x"
    and m: "\<forall>x y. esimp1 x = Inr y \<longrightarrow> letDepth y \<le> letDepth x"
    and d: "functionValueBindingDepth b \<le> n"
  shows "simplifyFunctionValueBinding esimp1 b = simplifyFunctionValueBinding esimp2 b"
proof (cases b)
  case (FunctionValueBinding q clauses name)
  show ?thesis
  proof (cases "name = None \<or> clauses = []")
    case True
    with FunctionValueBinding show ?thesis
      by (auto simp: simplifyFunctionValueBinding_def split: option.splits)
  next
    case False
    then obtain np nt first others where name: "name = Some (np, nt)"
      and clauses: "clauses = first # others"
      by (cases name; cases clauses) auto
    let ?arr = "map argIdentifier [0..<length (fst first)]"
    have arr: "maxList (map letDepth (map argIdentifier xs)) = 0" for xs
      by (induction xs) simp_all
    have t: "esimp1 (Tuple (- 1) ?arr) = esimp2 (Tuple (- 1) ?arr)"
      using a arr by simp
    have c: "esimp1 (wrapLambdas (length (fst first))
          (CaseAnalysis (- 1) pat (Match (- 1) (map clauseMatch clauses))))
        = esimp2 (wrapLambdas (length (fst first))
          (CaseAnalysis (- 1) pat (Match (- 1) (map clauseMatch clauses))))"
      if "letDepth pat = 0" for pat
      using a that matchDepth_clauses [of "- 1" clauses q name] d FunctionValueBinding
      by simp
    show ?thesis
    proof (cases "length ?arr \<noteq> 1")
      case True
      show ?thesis
      proof (cases "esimp2 (Tuple (- 1) ?arr)")
        case (Inl e)
        with t True FunctionValueBinding name clauses show ?thesis
          by (simp add: simplifyFunctionValueBinding_def)
      next
        case (Inr pat)
        with t m arr have "letDepth pat = 0"
          by (metis le_zero_eq letDepth.simps(6))
        from c [OF this] Inr t True FunctionValueBinding name clauses show ?thesis
          by (simp add: simplifyFunctionValueBinding_def)
      qed
    next
      case False
      then have "?arr ! 0 = argIdentifier 0" by simp
      then have "letDepth (?arr ! 0) = 0" by simp
      from c [OF this] False FunctionValueBinding name clauses show ?thesis
        by (simp add: simplifyFunctionValueBinding_def)
    qed
  qed
qed

lemma simplifyValueBinding_agree:
  assumes "\<forall>x. letDepth x \<le> n \<longrightarrow> esimp1 x = esimp2 x"
    and "valueBindingDepth b \<le> n"
  shows "simplifyValueBinding esimp1 b = simplifyValueBinding esimp2 b"
proof (cases b)
  case (ValueBinding p r pat e)
  with assms have "esimp1 pat = esimp2 pat" "esimp1 e = esimp2 e" by simp_all
  with ValueBinding show ?thesis
    by (simp add: simplifyValueBinding_def split: sum.splits)
qed

lemma simplify_agree:
  "\<forall>x. letDepth x \<le> n \<longrightarrow> esimp1 x = esimp2 x
    \<Longrightarrow> \<forall>x y. esimp1 x = Inr y \<longrightarrow> letDepth y \<le> letDepth x
    \<Longrightarrow> declarationDepth d \<le> n
    \<Longrightarrow> simplify esimp1 tsimp d = simplify esimp2 tsimp d"
proof (induction esimp1 tsimp d rule: simplify.induct)
  case (1 esimp1 tsimp p tvs bs i)
  have "mapE (simplifyValueBinding esimp1) bs = mapE (simplifyValueBinding esimp2) bs"
  proof (rule mapE_cong [OF refl])
    fix b assume "b \<in> set bs"
    with "1.prems"(3) have "valueBindingDepth b \<le> n"
      by (auto simp: maxList_le)
    then show "simplifyValueBinding esimp1 b = simplifyValueBinding esimp2 b"
      by (rule simplifyValueBinding_agree [OF "1.prems"(1)])
  qed
  then show ?case by simp
next
  case (5 esimp1 tsimp p bs tb decl i)
  show ?case
  proof (cases "mapE (simplifyDatatypeBinding tsimp) bs")
    case (Inl e)
    then show ?thesis by simp
  next
    case (Inr bs')
    from "5.IH" [OF Inr "5.prems"(1,2)] "5.prems"(3) Inr show ?thesis by simp
  qed
next
  case (7 esimp1 tsimp p decl body i)
  from "7.prems"(3) have dd: "declarationDepth decl \<le> n" and db: "declarationDepth body \<le> n"
    by simp_all
  note 1 = "7.IH"(1) [OF "7.prems"(1,2) dd]
  show ?case
  proof (cases "simplify esimp1 tsimp decl")
    case (Inl e)
    then show ?thesis by (simp add: 1 [symmetric])
  next
    case (Inr decl')
    from "7.IH"(2) [OF Inr "7.prems"(1,2) db] Inr show ?thesis by (simp add: 1 [symmetric])
  qed
next
  case (10 esimp1 tsimp p ds i)
  have "mapE (simplify esimp1 tsimp) ds = mapE (simplify esimp2 tsimp) ds"
  proof (rule mapE_cong [OF refl])
    fix d assume d: "d \<in> set ds"
    with "10.prems"(3) have "declarationDepth d \<le> n"
      by (auto simp: maxList_le)
    from "10.IH" [OF d "10.prems"(1,2) this]
    show "simplify esimp1 tsimp d = simplify esimp2 tsimp d" .
  qed
  then show ?case by simp
next
  case (11 esimp1 tsimp p tvs bs i)
  have "mapE (simplifyFunctionValueBinding esimp1) bs
      = mapE (simplifyFunctionValueBinding esimp2) bs"
  proof (rule mapE_cong [OF refl])
    fix b assume "b \<in> set bs"
    with "11.prems"(3) have "functionValueBindingDepth b \<le> n"
      by (auto simp: maxList_le)
    then show "simplifyFunctionValueBinding esimp1 b = simplifyFunctionValueBinding esimp2 b"
      by (rule simplifyFunctionValueBinding_agree [OF "11.prems"(1,2)])
  qed
  then show ?case by simp
qed simp_all

lemma simplifyFuel_enough:
  "letDepth e \<le> k \<Longrightarrow> letDepth e \<le> k' \<Longrightarrow> simplifyFuel k e = simplifyFuel k' e"
  "matchDepth m \<le> k \<Longrightarrow> matchDepth m \<le> k' \<Longrightarrow> simplifyMatch k m = simplifyMatch k' m"
proof (induction k e and k m arbitrary: k' and k' rule: simplifyFuel_simplifyMatch.induct)
  case (5 k p t ty pat)
  from "5.IH" [of k'] "5.prems" show ?case by simp
next
  case (6 k p es)
  have "mapE (simplifyFuel k) es = mapE (simplifyFuel k') es"
  proof (rule mapE_cong [OF refl])
    fix x assume x: "x \<in> set es"
    with "6.prems" have "letDepth x \<le> k" "letDepth x \<le> k'"
      by (auto simp: maxList_le)
    then show "simplifyFuel k x = simplifyFuel k' x" by (rule "6.IH" [OF x])
  qed
  then show ?case by simp
next
  case (7 k p es)
  have "mapE (simplifyFuel k) es = mapE (simplifyFuel k') es"
  proof (rule mapE_cong [OF refl])
    fix x assume x: "x \<in> set es"
    with "7.prems" have "letDepth x \<le> k" "letDepth x \<le> k'"
      by (auto simp: maxList_le)
    then show "simplifyFuel k x = simplifyFuel k' x" by (rule "7.IH" [OF x])
  qed
  then show ?case by simp
next
  case (8 k p es)
  have "mapE (simplifyFuel k) es = mapE (simplifyFuel k') es"
  proof (rule mapE_cong [OF refl])
    fix x assume x: "x \<in> set es"
    with "8.prems" have "letDepth x \<le> k" "letDepth x \<le> k'"
      by (auto simp: maxList_le)
    then show "simplifyFuel k x = simplifyFuel k' x" by (rule "8.IH" [OF x])
  qed
  then show ?case by simp
next
  case (9 k p isComplete entries)
  have "mapE (\<lambda>(label, e). bindE (simplifyFuel k e) (\<lambda>e'. Inr (label, e'))) entries
      = mapE (\<lambda>(label, e). bindE (simplifyFuel k' e) (\<lambda>e'. Inr (label, e'))) entries"
  proof (rule mapE_cong [OF refl])
    fix x assume x: "x \<in> set entries"
    obtain l e where xe: "x = (l, e)" by (cases x)
    from x xe "9.prems" have "letDepth e \<le> k" "letDepth e \<le> k'"
      by (auto simp: maxList_le)
    from "9.IH" [OF x xe [symmetric] this] xe
    show "(case x of (label, e) \<Rightarrow> bindE (simplifyFuel k e) (\<lambda>e'. Inr (label, e')))
        = (case x of (label, e) \<Rightarrow> bindE (simplifyFuel k' e) (\<lambda>e'. Inr (label, e')))"
      by simp
  qed
  then show ?case by simp
next
  case (10 k p e t)
  from "10.IH" [of k'] "10.prems" show ?case by simp
next
  case (11 k p f a)
  from "11.prems" have 1: "simplifyFuel k f = simplifyFuel k' f"
    by (intro "11.IH"(1)) simp_all
  have 2: "simplifyFuel k a = simplifyFuel k' a" if "simplifyFuel k f = Inr x" for x
    using "11.prems" by (intro "11.IH"(2) [OF that]) simp_all
  show ?case using 2 by (cases "simplifyFuel k f") (simp_all add: 1 [symmetric])
next
  case (12 k p e m)
  from "12.prems" have 1: "simplifyFuel k e = simplifyFuel k' e"
    by (intro "12.IH"(1)) simp_all
  have 2: "simplifyMatch k m = simplifyMatch k' m" if "simplifyFuel k e = Inr x" for x
    using "12.prems" by (intro "12.IH"(2) [OF that]) simp_all
  show ?case using 2 by (cases "simplifyFuel k e") (simp_all add: 1 [symmetric])
next
  case (13 k p e)
  from "13.IH" [of k'] "13.prems" show ?case by simp
next
  case (14 k p m)
  from "14.IH" [of k'] "14.prems" show ?case by simp
next
  case (15 k p e m)
  from "15.prems" have 1: "simplifyFuel k e = simplifyFuel k' e"
    by (intro "15.IH"(1)) simp_all
  have 2: "simplifyMatch k m = simplifyMatch k' m" if "simplifyFuel k e = Inr x" for x
    using "15.prems" by (intro "15.IH"(2) [OF that]) simp_all
  show ?case using 2 by (cases "simplifyFuel k e") (simp_all add: 1 [symmetric])
next
  case (16 k p c t e)
  from "16.prems" have 1: "simplifyFuel k c = simplifyFuel k' c"
    by (intro "16.IH"(1)) simp_all
  have 2: "simplifyFuel k t = simplifyFuel k' t" if "simplifyFuel k c = Inr x" for x
    using "16.prems" by (intro "16.IH"(2) [OF that]) simp_all
  have 3: "simplifyFuel k e = simplifyFuel k' e"
    if "simplifyFuel k c = Inr x" and "simplifyFuel k t = Inr y" for x y
    using "16.prems" by (intro "16.IH"(3) [OF that]) simp_all
  show ?case
  proof (cases "simplifyFuel k c")
    case (Inl err)
    then show ?thesis by (simp add: 1 [symmetric])
  next
    case c: (Inr x)
    show ?thesis
    proof (cases "simplifyFuel k t")
      case (Inl err)
      with c show ?thesis by (simp add: 1 [symmetric] 2 [OF c, symmetric])
    next
      case (Inr y)
      with c show ?thesis
        by (simp add: 1 [symmetric] 2 [OF c, symmetric] 3 [OF c Inr, symmetric])
    qed
  qed
next
  case (17 k p a b)
  from "17.prems" have 1: "simplifyFuel k a = simplifyFuel k' a"
    by (intro "17.IH"(1)) simp_all
  have 2: "simplifyFuel k b = simplifyFuel k' b" if "simplifyFuel k a = Inr x" for x
    using "17.prems" by (intro "17.IH"(2) [OF that]) simp_all
  show ?case using 2 by (cases "simplifyFuel k a") (simp_all add: 1 [symmetric])
next
  case (18 k p a b)
  from "18.prems" have 1: "simplifyFuel k a = simplifyFuel k' a"
    by (intro "18.IH"(1)) simp_all
  have 2: "simplifyFuel k b = simplifyFuel k' b" if "simplifyFuel k a = Inr x" for x
    using "18.prems" by (intro "18.IH"(2) [OF that]) simp_all
  show ?case using 2 by (cases "simplifyFuel k a") (simp_all add: 1 [symmetric])
next
  case (19 p c body)
  then show ?case by simp
next
  case (20 k p c body)
  from "20.prems" obtain k2 where k': "k' = Suc k2" by (cases k') auto
  from "20.prems" k' have 1: "simplifyFuel k c = simplifyFuel k2 c"
    by (intro "20.IH"(1)) simp_all
  have 2: "simplifyFuel k body = simplifyFuel k2 body" if "simplifyFuel k c = Inr x" for x
    using "20.prems" k' by (intro "20.IH"(2) [OF that]) simp_all
  show ?case using 2 by (cases "simplifyFuel k c") (simp_all add: k' 1 [symmetric])
next
  case (21 p d e)
  then show ?case by simp
next
  case (22 k p d e)
  from "22.prems" obtain k2 where k': "k' = Suc k2" by (cases k') auto
  from "22.prems" k' have dk: "declarationDepth d \<le> k" and dk2: "declarationDepth d \<le> k2"
    and ek: "letDepth e \<le> Suc k" and ek2: "letDepth e \<le> Suc k2"
    by simp_all
  have agree: "\<forall>x. letDepth x \<le> declarationDepth d \<longrightarrow> simplifyFuel k x = simplifyFuel k2 x"
    using "22.IH"(1) dk dk2 by (meson le_trans)
  have 1: "simplify (\<lambda>x. simplifyFuel k x) simplifyType d
      = simplify (\<lambda>x. simplifyFuel k2 x) simplifyType d"
    by (rule simplify_agree [OF agree _ le_refl]) (use simplifyFuel_depth(1) in blast)
  have 2: "simplifyFuel (Suc k) e = simplifyFuel (Suc k2) e"
    if "simplify (\<lambda>x. simplifyFuel k x) simplifyType d = Inr x" for x
    by (rule "22.IH"(2) [OF that ek ek2])
  show ?case
    using 2 by (cases "simplify (\<lambda>x. simplifyFuel k x) simplifyType d")
      (simp_all add: k' 1 [symmetric])
next
  case (23 k p rules)
  have "mapE (\<lambda>(pat, e). bindE (simplifyFuel k pat)
          (\<lambda>pat'. bindE (simplifyFuel k e) (\<lambda>e'. Inr (pat', e')))) rules
      = mapE (\<lambda>(pat, e). bindE (simplifyFuel k' pat)
          (\<lambda>pat'. bindE (simplifyFuel k' e) (\<lambda>e'. Inr (pat', e')))) rules"
  proof (rule mapE_cong [OF refl])
    fix x assume x: "x \<in> set rules"
    obtain pat e where xe: "x = (pat, e)" by (cases x)
    from x xe "23.prems" have dp: "letDepth pat \<le> k" "letDepth pat \<le> k'"
      and de: "letDepth e \<le> k" "letDepth e \<le> k'"
      by (auto simp: maxList_le)
    note 1 = "23.IH"(1) [OF x xe [symmetric] dp]
    have 2: "simplifyFuel k e = simplifyFuel k' e" if "simplifyFuel k pat = Inr y" for y
      by (rule "23.IH"(2) [OF x xe [symmetric] that de])
    show "(case x of (pat, e) \<Rightarrow> bindE (simplifyFuel k pat)
            (\<lambda>pat'. bindE (simplifyFuel k e) (\<lambda>e'. Inr (pat', e'))))
        = (case x of (pat, e) \<Rightarrow> bindE (simplifyFuel k' pat)
            (\<lambda>pat'. bindE (simplifyFuel k' e) (\<lambda>e'. Inr (pat', e'))))"
      using 2 by (cases "simplifyFuel k pat") (simp_all add: xe 1 [symmetric])
  qed
  then show ?case by simp
qed simp_all

lemma simplifyExpression_fuel: "letDepth e \<le> k \<Longrightarrow> simplifyFuel k e = simplifyExpression e"
  unfolding simplifyExpression_def by (rule simplifyFuel_enough(1)) simp_all

lemma simplify_fuel:
  assumes "declarationDepth d \<le> k"
  shows "simplify (simplifyFuel k) simplifyType d = simplify simplifyExpression simplifyType d"
proof (rule simplify_agree [OF _ _ assms])
  show "\<forall>x. letDepth x \<le> k \<longrightarrow> simplifyFuel k x = simplifyExpression x"
    by (simp add: simplifyExpression_fuel)
  show "\<forall>x y. simplifyFuel k x = Inr y \<longrightarrow> letDepth y \<le> letDepth x"
    using simplifyFuel_depth(1) by blast
qed

lemma mapE_fuel:
  assumes "maxList (map letDepth es) \<le> k"
  shows "mapE (simplifyFuel k) es = mapE simplifyExpression es"
proof (rule mapE_cong [OF refl])
  fix x assume "x \<in> set es"
  with assms have "letDepth x \<le> k" by (auto simp: maxList_le)
  then show "simplifyFuel k x = simplifyExpression x" by (rule simplifyExpression_fuel)
qed

lemma mapE_entries_fuel:
  assumes "maxList (map (\<lambda>(label, e). letDepth e) entries) \<le> k"
  shows "mapE (\<lambda>(label, e). bindE (simplifyFuel k e) (\<lambda>e'. Inr (label, e'))) entries
       = mapE (\<lambda>(label, e). bindE (simplifyExpression e) (\<lambda>e'. Inr (label, e'))) entries"
proof (rule mapE_cong [OF refl])
  fix x assume x: "x \<in> set entries"
  obtain l e where xe: "x = (l, e)" by (cases x)
  from x xe assms have "letDepth e \<le> k" by (auto simp: maxList_le)
  then show "(case x of (label, e) \<Rightarrow> bindE (simplifyFuel k e) (\<lambda>e'. Inr (label, e')))
      = (case x of (label, e) \<Rightarrow> bindE (simplifyExpression e) (\<lambda>e'. Inr (label, e')))"
    by (simp add: xe simplifyExpression_fuel)
qed

lemma simplifyMatch_fuel:
  assumes "matchDepth (Match q rules) \<le> k"
  shows "simplifyMatch k (Match q rules)
       = bindE (mapE (\<lambda>(pat, e). bindE (simplifyExpression pat)
                  (\<lambda>pat'. bindE (simplifyExpression e) (\<lambda>e'. Inr (pat', e')))) rules)
           (\<lambda>rules'. Inr (Match q rules'))"
proof -
  have "mapE (\<lambda>(pat, e). bindE (simplifyFuel k pat)
          (\<lambda>pat'. bindE (simplifyFuel k e) (\<lambda>e'. Inr (pat', e')))) rules
      = mapE (\<lambda>(pat, e). bindE (simplifyExpression pat)
          (\<lambda>pat'. bindE (simplifyExpression e) (\<lambda>e'. Inr (pat', e')))) rules"
  proof (rule mapE_cong [OF refl])
    fix x assume x: "x \<in> set rules"
    obtain pat e where xe: "x = (pat, e)" by (cases x)
    from x xe assms have "letDepth pat \<le> k" "letDepth e \<le> k" by (auto simp: maxList_le)
    then show "(case x of (pat, e) \<Rightarrow> bindE (simplifyFuel k pat)
            (\<lambda>pat'. bindE (simplifyFuel k e) (\<lambda>e'. Inr (pat', e'))))
        = (case x of (pat, e) \<Rightarrow> bindE (simplifyExpression pat)
            (\<lambda>pat'. bindE (simplifyExpression e) (\<lambda>e'. Inr (pat', e'))))"
      by (simp add: xe simplifyExpression_fuel)
  qed
  then show ?thesis by simp
qed

text \<open>
  The simplification of expressions, node by node: at every node \<open>simplifyExpression\<close>
  is the rule of the node applied to the \<open>simplifyExpression\<close> of its parts, and at a
  \<open>let\<close> to \<open>simplify\<close> of its declaration with \<open>simplifyExpression\<close> for the expressions
  in it.  The bound on the depth is never reached.
\<close>

lemma simplifyExpression_atoms:
  "simplifyExpression (ValueIdentifier p t) = Inr (ValueIdentifier p t)"
  "simplifyExpression (Wildcard p) = Inr (Wildcard p)"
  "simplifyExpression (Constant p t) = Inr (Constant p t)"
  "simplifyExpression (RecordSelector p t) = Inr (RecordSelector p t)"
  by (simp_all add: simplifyExpression_def)

lemma simplifyExpression_lists:
  "simplifyExpression (Tuple p es) =
     bindE (mapE simplifyExpression es) (\<lambda>es'. Inr (tupleRecord p es'))"
  "simplifyExpression (List p es) =
     bindE (mapE simplifyExpression es)
       (\<lambda>es'. Inr (foldr (consExpression p) es' (namedIdentifier p ''nil'')))"
  "simplifyExpression (Sequence p es) =
     bindE (mapE simplifyExpression es) (\<lambda>es'. Inr (sequenceCases p es'))"
  "simplifyExpression (Record p isComplete entries) =
     bindE (mapE (\<lambda>(label, e). bindE (simplifyExpression e) (\<lambda>e'. Inr (label, e'))) entries)
       (\<lambda>entries'. Inr (Record p isComplete entries'))"
  unfolding simplifyExpression_def [of "Tuple p es"] simplifyExpression_def [of "List p es"]
    simplifyExpression_def [of "Sequence p es"]
    simplifyExpression_def [of "Record p isComplete entries"]
  by (simp_all add: mapE_fuel mapE_entries_fuel)

lemma simplifyExpression_unary:
  "simplifyExpression (LayeredPattern p t ty pat) =
     bindE (simplifyExpression pat) (\<lambda>pat'. Inr (LayeredPattern p t ty pat'))"
  "simplifyExpression (TypedExpression p e t') =
     bindE (simplifyExpression e) (\<lambda>e'. Inr (TypedExpression p e' t'))"
  "simplifyExpression (RaiseException p e) =
     bindE (simplifyExpression e) (\<lambda>e'. Inr (RaiseException p e'))"
  by (simp_all add: simplifyExpression_def)

lemma simplifyExpression_binary:
  "simplifyExpression (FunctionApplication p f a) =
     bindE (simplifyExpression f) (\<lambda>f'. bindE (simplifyExpression a)
       (\<lambda>a'. Inr (FunctionApplication p f' a')))"
  "simplifyExpression (Conditional p c t e) =
     bindE (simplifyExpression c) (\<lambda>c'. bindE (simplifyExpression t)
       (\<lambda>t'. bindE (simplifyExpression e) (\<lambda>e'. Inr (conditionalCase p c' t' e'))))"
  "simplifyExpression (Conjunction p a b) =
     bindE (simplifyExpression a) (\<lambda>a'. bindE (simplifyExpression b)
       (\<lambda>b'. Inr (conditionalCase p a' b' (namedIdentifier p ''false''))))"
  "simplifyExpression (Disjunction p a b) =
     bindE (simplifyExpression a) (\<lambda>a'. bindE (simplifyExpression b)
       (\<lambda>b'. Inr (conditionalCase p a' (namedIdentifier p ''true'') b')))"
  "simplifyExpression (While p c body) =
     bindE (simplifyExpression c) (\<lambda>c'. bindE (simplifyExpression body)
       (\<lambda>body'. Inr (whileLoop p c' body')))"
  unfolding simplifyExpression_def [of "FunctionApplication p f a"]
    simplifyExpression_def [of "Conditional p c t e"]
    simplifyExpression_def [of "Conjunction p a b"]
    simplifyExpression_def [of "Disjunction p a b"]
    simplifyExpression_def [of "While p c body"]
  by (simp_all add: simplifyExpression_fuel)

lemma simplifyExpression_matches:
  "simplifyExpression (Lambda p (Match q rules)) =
     bindE (mapE (\<lambda>(pat, e). bindE (simplifyExpression pat)
              (\<lambda>pat'. bindE (simplifyExpression e) (\<lambda>e'. Inr (pat', e')))) rules)
       (\<lambda>rules'. Inr (Lambda p (Match q rules')))"
  "simplifyExpression (CaseAnalysis p e (Match q rules)) =
     bindE (simplifyExpression e)
       (\<lambda>e'. bindE (mapE (\<lambda>(pat, e). bindE (simplifyExpression pat)
                 (\<lambda>pat'. bindE (simplifyExpression e) (\<lambda>e'. Inr (pat', e')))) rules)
          (\<lambda>rules'. Inr (CaseAnalysis p e' (Match q rules'))))"
  "simplifyExpression (HandleException p e (Match q rules)) =
     bindE (simplifyExpression e)
       (\<lambda>e'. bindE (mapE (\<lambda>(pat, e). bindE (simplifyExpression pat)
                 (\<lambda>pat'. bindE (simplifyExpression e) (\<lambda>e'. Inr (pat', e')))) rules)
          (\<lambda>rules'. Inr (HandleException p e' (Match q rules'))))"
proof -
  show "simplifyExpression (Lambda p (Match q rules)) =
     bindE (mapE (\<lambda>(pat, e). bindE (simplifyExpression pat)
              (\<lambda>pat'. bindE (simplifyExpression e) (\<lambda>e'. Inr (pat', e')))) rules)
       (\<lambda>rules'. Inr (Lambda p (Match q rules')))"
    unfolding simplifyExpression_def [of "Lambda p (Match q rules)"]
    by (simp only: simplifyFuel.simps letDepth.simps simplifyMatch_fuel [OF le_refl])
      (cases "mapE (\<lambda>(pat, e). bindE (simplifyExpression pat)
              (\<lambda>pat'. bindE (simplifyExpression e) (\<lambda>e'. Inr (pat', e')))) rules"; simp)
  have m: "simplifyMatch (max (letDepth e) (matchDepth (Match q rules))) (Match q rules)
      = bindE (mapE (\<lambda>(pat, e). bindE (simplifyExpression pat)
                  (\<lambda>pat'. bindE (simplifyExpression e) (\<lambda>e'. Inr (pat', e')))) rules)
           (\<lambda>rules'. Inr (Match q rules'))"
    by (rule simplifyMatch_fuel) simp
  have e: "simplifyFuel (max (letDepth e) (matchDepth (Match q rules))) e = simplifyExpression e"
    by (rule simplifyExpression_fuel) simp
  show "simplifyExpression (CaseAnalysis p e (Match q rules)) =
     bindE (simplifyExpression e)
       (\<lambda>e'. bindE (mapE (\<lambda>(pat, e). bindE (simplifyExpression pat)
                 (\<lambda>pat'. bindE (simplifyExpression e) (\<lambda>e'. Inr (pat', e')))) rules)
          (\<lambda>rules'. Inr (CaseAnalysis p e' (Match q rules'))))"
    unfolding simplifyExpression_def [of "CaseAnalysis p e (Match q rules)"]
    by (simp only: simplifyFuel.simps letDepth.simps m e)
      (cases "simplifyExpression e"; cases "mapE (\<lambda>(pat, e). bindE (simplifyExpression pat)
              (\<lambda>pat'. bindE (simplifyExpression e) (\<lambda>e'. Inr (pat', e')))) rules"; simp)
  show "simplifyExpression (HandleException p e (Match q rules)) =
     bindE (simplifyExpression e)
       (\<lambda>e'. bindE (mapE (\<lambda>(pat, e). bindE (simplifyExpression pat)
                 (\<lambda>pat'. bindE (simplifyExpression e) (\<lambda>e'. Inr (pat', e')))) rules)
          (\<lambda>rules'. Inr (HandleException p e' (Match q rules'))))"
    unfolding simplifyExpression_def [of "HandleException p e (Match q rules)"]
    by (simp only: simplifyFuel.simps letDepth.simps m e)
      (cases "simplifyExpression e"; cases "mapE (\<lambda>(pat, e). bindE (simplifyExpression pat)
              (\<lambda>pat'. bindE (simplifyExpression e) (\<lambda>e'. Inr (pat', e')))) rules"; simp)
qed

lemma simplifyExpression_let:
  "simplifyExpression (LocalDeclarationExpression p d e) =
     bindE (simplify simplifyExpression simplifyType d)
       (\<lambda>d'. bindE (simplifyExpression e) (\<lambda>e'. Inr (LocalDeclarationExpression p d' e')))"
proof -
  define k where "k = max (declarationDepth d) (letDepth e - 1)"
  have k: "letDepth (LocalDeclarationExpression p d e) = Suc k"
    by (simp add: k_def)
  have d: "simplify (\<lambda>x. simplifyFuel k x) simplifyType d
      = simplify simplifyExpression simplifyType d"
    by (rule simplify_fuel) (simp add: k_def)
  have e: "simplifyFuel (Suc k) e = simplifyExpression e"
    by (rule simplifyExpression_fuel) (simp add: k_def)
  show ?thesis
    unfolding simplifyExpression_def [of "LocalDeclarationExpression p d e"] k
    by (simp only: simplifyFuel.simps d e)
qed

lemma simplifyExpression_fixed:
  assumes "simplifyExpression e = Inr e'"
  shows "simplifyExpression e' = Inr e'"
proof -
  from assms have a: "simplifyFuel (letDepth e) e = Inr e'"
    by (simp add: simplifyExpression_def)
  from simplifyFuel_depth(1) [OF a] have "simplifyFuel (letDepth e) e' = simplifyExpression e'"
    by (rule simplifyExpression_fuel)
  with simplifyFuel_fixed(1) [OF a] show ?thesis by simp
qed

lemma simplifyType_fixed: "simplifyType t = Inr t' \<Longrightarrow> simplifyType t' = Inr t'"
  by (simp add: simplifyType_def)

lemma simplify_simplifyExpression_fixed:
  assumes "simplify simplifyExpression simplifyType d = Inr d'"
  shows "simplify simplifyExpression simplifyType d' = Inr d'"
  by (rule simplify_fixed [OF assms])
    (auto simp: simplifyExpression_atoms intro: simplifyExpression_fixed simplifyType_fixed)

text \<open>
  C9.  Simplification is idempotent on declarations: for every declaration,
  simplifying the simplified declaration gives the simplified declaration again, and
  when the simplification of the declaration throws there is nothing to simplify
  again and the error is the outcome of both sides.  The simplification of
  expressions, patterns and types is the one modelled from the spec.
\<close>

theorem simplify_idempotent:
  "bindE (simplify simplifyExpression simplifyType d) (simplify simplifyExpression simplifyType)
     = simplify simplifyExpression simplifyType d"
proof (cases "simplify simplifyExpression simplifyType d")
  case (Inl err)
  then show ?thesis by simp
next
  case (Inr d')
  then show ?thesis by (simp add: simplify_simplifyExpression_fixed)
qed

theorem simplify_idempotent_witness:
  "simplify simplifyExpression simplifyType conditionalDeclaration = Inr conditionalCore
   \<and> simplify simplifyExpression simplifyType conditionalCore = Inr conditionalCore
   \<and> conditionalCore \<noteq> conditionalDeclaration"
proof -
  have 1: "simplify simplifyExpression simplifyType conditionalDeclaration = Inr conditionalCore"
    by code_simp
  have 2: "conditionalCore \<noteq> conditionalDeclaration"
    by code_simp
  from simplify_idempotent [of conditionalDeclaration] 1 2 show ?thesis by simp
qed

end
